(* ===== verification/Prelude.thy ===== *)
theory Prelude
  imports Main "HOL-Library.Word" "HOL-Library.Monad_Syntax"
begin

text \<open>
  Shared types, collections and generic lemmas: machine integers at the width the Rust code
  gives them, the big-endian byte conversions of the Rust standard library
  (\<open>to_be_bytes\<close>, \<open>octets\<close>, \<open>from_bits\<close>), the decimal and hexadecimal
  formatting of \<open>format!\<close>, and small facts about lists and about the option monad.

  A Rust function that can panic returns an \<open>option\<close>: \<open>None\<close> is the panic. A
  \<open>Result<T, E>\<close> is a sum, with \<open>Inl\<close> for \<open>Err\<close> and \<open>Inr\<close> for \<open>Ok\<close>.
\<close>

unbundle bit_operations_syntax

named_theorems wire_simps \<open>layout of a message as a byte list\<close>
named_theorems fsm_simps \<open>effect of the timer operations on the state machine\<close>
named_theorems frame_simps \<open>fields an operation leaves alone\<close>

section \<open>Machine integers and bytes\<close>

type_synonym u8 = "8 word"
type_synonym u16 = "16 word"
type_synonym u32 = "32 word"
type_synonym u128 = "128 word"
type_synonym bytes = "u8 list"

text \<open>A MAC address is the \<open>[u8; 6]\<close> of the code, an ARP protocol address its \<open>[u8; 4]\<close>.\<close>

type_synonym mac = "u8 list"

subsection \<open>Big-endian conversion\<close>

fun nat_be :: "nat \<Rightarrow> nat \<Rightarrow> bytes" where
  "nat_be 0 x = []"
| "nat_be (Suc n) x = nat_be n (x div 256) @ [word_of_nat x]"

definition nat_of_be :: "bytes \<Rightarrow> nat" where
  "nat_of_be bs = foldl (\<lambda>acc b. acc * 256 + unat b) 0 bs"

definition be16 :: "u16 \<Rightarrow> bytes" where "be16 w = nat_be 2 (unat w)"
definition be32 :: "u32 \<Rightarrow> bytes" where "be32 w = nat_be 4 (unat w)"
definition be128 :: "u128 \<Rightarrow> bytes" where "be128 w = nat_be 16 (unat w)"

definition of_be16 :: "bytes \<Rightarrow> u16" where "of_be16 bs = word_of_nat (nat_of_be bs)"
definition of_be32 :: "bytes \<Rightarrow> u32" where "of_be32 bs = word_of_nat (nat_of_be bs)"
definition of_be128 :: "bytes \<Rightarrow> u128" where "of_be128 bs = word_of_nat (nat_of_be bs)"

lemma length_nat_be [simp]: "length (nat_be n x) = n"
  by (induction n x rule: nat_be.induct) auto

lemma nat_of_be_Nil [simp]: "nat_of_be [] = 0"
  by (simp add: nat_of_be_def)

lemma nat_of_be_snoc [simp]: "nat_of_be (bs @ [b]) = nat_of_be bs * 256 + unat b"
  by (simp add: nat_of_be_def)

lemma unat_lt_256: "unat (b :: u8) < 256"
  using unsigned_less [of b, where 'a = nat] by simp

lemma nat_of_be_bound: "nat_of_be bs < 256 ^ length bs"
proof (induction bs rule: rev_induct)
  case Nil
  then show ?case by simp
next
  case (snoc b bs)
  have "nat_of_be bs * 256 + unat b < (nat_of_be bs + 1) * 256"
    using unat_lt_256 [of b] by simp
  also have "\<dots> \<le> 256 ^ length bs * 256"
    using snoc by (intro mult_right_mono) auto
  finally show ?case by simp
qed

lemma nat_of_be_nat_be: "nat_of_be (nat_be n x) = x mod 256 ^ n"
proof (induction n x rule: nat_be.induct)
  case (1 x)
  then show ?case by simp
next
  case (2 n x)
  have "x mod (256 * 256 ^ n) = 256 * (x div 256 mod 256 ^ n) + x mod 256"
    by (rule mod_mult2_eq)
  with 2 show ?case
    by (simp add: unat_of_nat take_bit_eq_mod mult.commute)
qed

lemma nat_be_nat_of_be: "nat_be (length bs) (nat_of_be bs) = bs"
proof (induction bs rule: rev_induct)
  case Nil
  then show ?case by simp
next
  case (snoc b bs)
  have "(nat_of_be bs * 256 + unat b) div 256 = nat_of_be bs"
    using unat_lt_256 [of b] by simp
  moreover have "(word_of_nat (nat_of_be bs * 256 + unat b) :: u8) = b"
  proof -
    have z: "(256 :: u8) = 0" by simp
    show ?thesis by (simp, simp only: z mult_zero_right)
  qed
  ultimately show ?case
    using snoc by simp
qed

lemma length_be [simp]: "length (be16 h) = 2" "length (be32 w) = 4" "length (be128 d) = 16"
  by (simp_all only: be16_def be32_def be128_def length_nat_be)

lemma be_neq_Nil [simp]: "be16 h \<noteq> []" "be32 w \<noteq> []" "be128 d \<noteq> []"
  by (metis length_be list.size(3) zero_neq_numeral)+

lemma nat_be_numeral [simp]:
  "nat_be (numeral k) x = nat_be (pred_numeral k) (x div 256) @ [word_of_nat x]"
  using nat_be.simps(2) [of "pred_numeral k" x] by (simp only: numeral_eq_Suc [of k, symmetric])

lemma of_be_be [simp]: "of_be16 (be16 h) = h" "of_be32 (be32 w) = w" "of_be128 (be128 d) = d"
  using unsigned_less [of h, where 'a = nat] unsigned_less [of w, where 'a = nat] unsigned_less [of d, where 'a = nat]
  by (simp_all add: of_be16_def be16_def of_be32_def be32_def of_be128_def be128_def nat_of_be_nat_be
      del: nat_be_numeral)

text \<open>The inverse direction, for byte lists of the right width.\<close>

lemma be_of_be:
  "length bs = 2 \<Longrightarrow> be16 (of_be16 bs) = bs"
  "length bs = 4 \<Longrightarrow> be32 (of_be32 bs) = bs"
  "length bs = 16 \<Longrightarrow> be128 (of_be128 bs) = bs"
proof -
  assume "length bs = 2"
  with nat_of_be_bound [of bs] nat_be_nat_of_be [of bs] show "be16 (of_be16 bs) = bs"
    by (simp add: be16_def of_be16_def unat_of_nat take_bit_eq_mod del: nat_be_numeral)
next
  assume "length bs = 4"
  with nat_of_be_bound [of bs] nat_be_nat_of_be [of bs] show "be32 (of_be32 bs) = bs"
    by (simp add: be32_def of_be32_def unat_of_nat take_bit_eq_mod del: nat_be_numeral)
next
  assume "length bs = 16"
  with nat_of_be_bound [of bs] nat_be_nat_of_be [of bs] show "be128 (of_be128 bs) = bs"
    by (simp add: be128_def of_be128_def unat_of_nat take_bit_eq_mod del: nat_be_numeral)
qed

lemma be16_two: "be16 w = [ucast (drop_bit 8 w), ucast w]"
proof -
  have "unat (ucast (drop_bit 8 w) :: u8) = unat w div 256"
    using unsigned_less [of w, where 'a = nat]
    by (simp add: unsigned_ucast_eq drop_bit_eq_div take_bit_eq_mod unat_div_distrib)
  then have "word_of_nat (unat w div 256) = (ucast (drop_bit 8 w) :: u8)"
    by (metis of_nat_unat ucast_id)
  moreover have "word_of_nat (unat w) = (ucast w :: u8)"
    by (rule of_nat_unat)
  moreover have "be16 w = [word_of_nat (unat w div 256), word_of_nat (unat w)]"
    by (simp only: be16_def numeral_2_eq_2 nat_be.simps append.simps)
  ultimately show ?thesis by simp
qed

lemma be_zero: "be16 0 = [0, 0]" "be32 0 = [0, 0, 0, 0]"
  by (simp_all add: be16_def be32_def)

section \<open>Lists and options\<close>

text \<open>
  A fixed number of elements of \<open>w\<close> bytes each, one after the other. \<open>take_n\<close> is the
  loop \<open>for _ in 0..n { v.push(buf.get()) }\<close> over a reader that may panic.
\<close>

fun take_n :: "(bytes \<Rightarrow> ('a \<times> bytes) option) \<Rightarrow> nat \<Rightarrow> bytes \<Rightarrow> ('a list \<times> bytes) option" where
  "take_n get 0 buf = Some ([], buf)"
| "take_n get (Suc n) buf = do {
     (x, buf) \<leftarrow> get buf;
     (xs, buf) \<leftarrow> take_n get n buf;
     Some (x # xs, buf)
   }"

lemma take_n_concat:
  assumes "\<And>x rest. get (enc x @ rest) = Some (x, rest)"
  shows "take_n get (length xs) (concat (map enc xs) @ rest) = Some (xs, rest)"
  by (induction xs) (simp_all add: assms)

lemma take_n_total:
  assumes "\<And>b. w \<le> length b \<Longrightarrow> \<exists>x. get b = Some (x, drop w b)"
    and "n * w \<le> length buf"
  shows "\<exists>xs. take_n get n buf = Some (xs, drop (n * w) buf) \<and> length xs = n"
  using assms(2)
proof (induction n arbitrary: buf)
  case 0
  then show ?case by simp
next
  case (Suc n)
  from Suc.prems have "w \<le> length buf" by simp
  then obtain x where x: "get buf = Some (x, drop w buf)"
    using assms(1) by blast
  from Suc.prems have "n * w \<le> length (drop w buf)" by simp
  from Suc.IH [OF this] obtain xs where
    "take_n get n (drop w buf) = Some (xs, drop (n * w) (drop w buf))" and "length xs = n"
    by blast
  with x show ?case
    by (auto simp: add.commute)
qed

lemma take_n_inverse:
  assumes "\<And>b x r. get b = Some (x, r) \<Longrightarrow> b = enc x @ r"
    and "take_n get n buf = Some (xs, rest)"
  shows "buf = concat (map enc xs) @ rest \<and> length xs = n"
  using assms(2)
proof (induction n arbitrary: buf xs)
  case 0
  then show ?case by simp
next
  case (Suc n)
  from Suc.prems obtain x b ys where
    "get buf = Some (x, b)" and "take_n get n b = Some (ys, rest)" and "xs = x # ys"
    by (auto simp: bind_eq_Some_conv)
  with Suc.IH [of b ys] assms(1) [of buf x b] show ?case by simp
qed

lemma length_concat_const:
  assumes "\<And>x. length (enc x) = w"
  shows "length (concat (map enc xs)) = length xs * w"
  by (induction xs) (simp_all add: assms)

lemma foldl_append_enc: "foldl (\<lambda>b x. b @ enc x) b xs = b @ concat (map enc xs)"
  by (induction xs arbitrary: b) simp_all

text \<open>A list cut off at its first eight elements: how the fixed header of a message is read.\<close>

lemma list_8_exhaust:
  assumes "8 \<le> length xs"
  obtains a b c d e f g h rest where "xs = a # b # c # d # e # f # g # h # rest"
proof -
  have "\<exists>a b c d e f g h rest. xs = a # b # c # d # e # f # g # h # rest"
    using assms by (simp add: numeral_eq_Suc Suc_le_length_iff) blast
  with that show ?thesis by blast
qed

end
