(* ===== verification/Types.thy ===== *)
theory Types
  imports Prelude
begin

text \<open>
  The crate's shared data (\<open>src/src/lib.rs\<close>) and its errors (\<open>src/src/error.rs\<close>):
  protocol versions, address lists, the address type of \<open>std::net\<close>, and the four error
  enums. Errors of the operating system and of netlink carry no structure the code looks
  at beyond the netlink error code, so \<open>io_error\<close> is an error number (or the
  \<open>InvalidInput\<close> that \<open>if_index\<close> builds itself) and
  \<open>rtnl_error\<close> keeps the code of a \<open>NetlinkError\<close>.
\<close>

section \<open>Addresses\<close>

datatype ip_addr = IpV4 u32 | IpV6 u128

text \<open>\<open>Ipv4Addr::octets\<close> and \<open>Ipv6Addr::octets\<close> are the big-endian bytes.\<close>

abbreviation octets4 :: "u32 \<Rightarrow> bytes" where "octets4 \<equiv> be32"
abbreviation octets6 :: "u128 \<Rightarrow> bytes" where "octets6 \<equiv> be128"

definition UNSPECIFIED4 :: u32 where "UNSPECIFIED4 = 0"
definition UNSPECIFIED6 :: u128 where "UNSPECIFIED6 = 0"

text \<open>\<open>Ipv6Addr::new\<close> of eight 16-bit segments.\<close>

definition ipv6_new :: "u16 \<Rightarrow> u16 \<Rightarrow> u16 \<Rightarrow> u16 \<Rightarrow> u16 \<Rightarrow> u16 \<Rightarrow> u16 \<Rightarrow> u16 \<Rightarrow> u128" where
  "ipv6_new a b c d e f g h = of_be128 (concat (map be16 [a, b, c, d, e, f, g, h]))"

definition ipv4_new :: "u8 \<Rightarrow> u8 \<Rightarrow> u8 \<Rightarrow> u8 \<Rightarrow> u32" where
  "ipv4_new a b c d = of_be32 [a, b, c, d]"

text \<open>
  \<open>Ipv6Addr::is_loopback\<close> is equality with \<open>::1\<close>;
  \<open>is_unicast_link_local\<close> looks at the first segment: \<open>(s & 0xffc0) == 0xfe80\<close>.
\<close>

definition is_loopback6 :: "u128 \<Rightarrow> bool" where
  "is_loopback6 a \<longleftrightarrow> a = 1"

definition is_unicast_link_local :: "u128 \<Rightarrow> bool" where
  "is_unicast_link_local a \<longleftrightarrow> (ucast (drop_bit 112 a) :: u16) AND 0xffc0 = 0xfe80"

section \<open>Versions and address lists\<close>

datatype vrrp_version = V2 | V3

fun as_u8 :: "vrrp_version \<Rightarrow> u8" where
  "as_u8 V2 = 2"
| "as_u8 V3 = 3"

datatype vrrp_addresses = AddrsV4 "u32 list" | AddrsV6 "u128 list"

fun addresses_len :: "vrrp_addresses \<Rightarrow> nat" where
  "addresses_len (AddrsV4 addrs) = length addrs"
| "addresses_len (AddrsV6 addrs) = length addrs"

datatype address_action = Add | Delete

fun show_action :: "address_action \<Rightarrow> string" where
  "show_action Add = ''add''"
| "show_action Delete = ''delete''"

section \<open>Errors\<close>

datatype io_error = OsError int | InvalidInput

datatype rtnl_error = NetlinkError "int option" | RequestFailed

datatype packet_error =
    UnsupportedVersion u8
  | Malformed
  | BadTtl u8
  | BadChecksum
  | VridMismatch u8 u8  \<comment> \<open>expected, received\<close>
  | AdvertIntervalMismatch u8 u8
  | IpCountMismatch u8 u8
  | IpListMismatch

datatype net_error =
    InterfaceNotFound string
  | NoIpv4Address string
  | NetlinkConnect io_error
  | InterfaceLookup string rtnl_error
  | NotMacVlan string
  | MacVlanMismatch string string
  | StaleMacVlanRemoval string rtnl_error
  | MacVlanCreate string rtnl_error
  | SocketBind string string io_error
  | SignalHandler io_error
  | LockPoisoned

text \<open>\<open>TryFrom<u8>\<close> for a protocol version.\<close>

definition version_try_from :: "u8 \<Rightarrow> packet_error + vrrp_version" where
  "version_try_from value =
     (if value = 2 then Inr V2 else if value = 3 then Inr V3 else Inl (UnsupportedVersion value))"

lemma version_try_from_as_u8 [simp]: "version_try_from (as_u8 v) = Inr v"
  by (cases v) (simp_all add: version_try_from_def)

lemma version_try_from_Inr: "version_try_from b = Inr v \<longleftrightarrow> b = as_u8 v"
  by (cases v) (auto simp: version_try_from_def)

lemma version_try_from_Inl: "version_try_from b = Inl e \<longleftrightarrow> b \<noteq> 2 \<and> b \<noteq> 3 \<and> e = UnsupportedVersion b"
  by (auto simp: version_try_from_def)

lemma as_u8_inj [simp]: "as_u8 v = as_u8 w \<longleftrightarrow> v = w"
  by (cases v; cases w) simp_all

lemma octets4_inj [simp]: "octets4 a = octets4 b \<longleftrightarrow> a = b"
  by (metis of_be_be(2))

lemma octets6_inj [simp]: "octets6 a = octets6 b \<longleftrightarrow> a = b"
  by (metis of_be_be(3))

end
