(* ===== verification/Crates.thy ===== *)
theory Crates
  imports Types
begin

text \<open>
  The third-party crates the message code calls, as parameters. \<open>bytes\<close> gives the
  big-endian writers of \<open>BufMut\<close> and the readers of \<open>Buf\<close>, which panic when too few bytes
  remain (\<open>None\<close>); \<open>internet-checksum\<close> gives \<open>Checksum\<close>, here one function of the
  slices passed to \<open>add_bytes\<close> in order, returning the two bytes of \<open>checksum()\<close>;
  \<open>ipnet\<close> parses and prints addresses with a prefix length.

  The locale \<open>wire_crates\<close> states the documented behaviour the code relies on. It is
  interpreted below on list operations and on the RFC 1071 checksum.
\<close>

section \<open>Addresses with a prefix length\<close>

record ipv4_net =
  addr4 :: u32
  prefix_len4 :: u8

record ipv6_net =
  addr6 :: u128
  prefix_len6 :: u8

datatype ip_net = NetV4 ipv4_net | NetV6 ipv6_net

section \<open>The parameters\<close>

record crates =
  put_u8 :: "bytes \<Rightarrow> u8 \<Rightarrow> bytes"
  put_u16 :: "bytes \<Rightarrow> u16 \<Rightarrow> bytes"
  put_u32 :: "bytes \<Rightarrow> u32 \<Rightarrow> bytes"
  put_u128 :: "bytes \<Rightarrow> u128 \<Rightarrow> bytes"
  put_slice :: "bytes \<Rightarrow> bytes \<Rightarrow> bytes"
  get_u8 :: "bytes \<Rightarrow> (u8 \<times> bytes) option"
  get_u16 :: "bytes \<Rightarrow> (u16 \<times> bytes) option"
  get_u32 :: "bytes \<Rightarrow> (u32 \<times> bytes) option"
  get_u128 :: "bytes \<Rightarrow> (u128 \<times> bytes) option"
  checksum :: "bytes list \<Rightarrow> u8 \<times> u8"
  parse_ipnet :: "string \<Rightarrow> ip_net option"
  show_ipv4_net :: "ipv4_net \<Rightarrow> string"
  show_ipv6_net :: "ipv6_net \<Rightarrow> string"

section \<open>The Internet checksum of RFC 1071\<close>

text \<open>
  The one's complement of the one's complement sum of the 16-bit big-endian words, an odd
  last byte padded with zero. The end-around carry is folded in until the sum fits 16 bits.
\<close>

fun sum16 :: "bytes \<Rightarrow> nat" where
  "sum16 [] = 0"
| "sum16 [a] = unat a * 256"
| "sum16 (a # b # bs) = unat a * 256 + unat b + sum16 bs"

lemma carry_decreases: "n mod 65536 + n div 65536 < n" if "65536 \<le> n" for n :: nat
proof -
  define q r where "q = n div 65536" and "r = n mod 65536"
  have "n = q * 65536 + r" unfolding q_def r_def by simp
  moreover have "1 \<le> q"
    using that unfolding q_def by (simp add: div_greater_zero_iff Suc_le_eq)
  ultimately have "r + q < n" by linarith
  then show ?thesis by (simp add: q_def r_def)
qed

function fold16 :: "nat \<Rightarrow> nat" where
  "fold16 n = (if n < 65536 then n else fold16 (n mod 65536 + n div 65536))"
  by pat_completeness auto
termination
  by (relation "measure id") (simp_all add: carry_decreases)

declare fold16.simps [simp del]

definition internet_checksum :: "bytes \<Rightarrow> u8 \<times> u8" where
  "internet_checksum bs =
     (let w = word_of_nat (65535 - fold16 (sum16 bs)) :: u16
      in (ucast (drop_bit 8 w), ucast w))"

lemma fold16_closed: "fold16 n = (if n = 0 then 0 else (n - 1) mod 65535 + 1)"
proof (induction n rule: fold16.induct)
  case (1 n)
  show ?case
  proof (cases "n < 65536")
    case True
    then show ?thesis by (auto simp: fold16.simps [of n])
  next
    case False
    define q r where "q = n div 65536" and "r = n mod 65536"
    have n: "n = q * 65536 + r" unfolding q_def r_def by simp
    from False have "1 \<le> q"
      unfolding q_def by (simp add: div_greater_zero_iff Suc_le_eq)
    with n have "n - 1 = (r + q - 1) + 65535 * q" by linarith
    then have "(n - 1) mod 65535 = (r + q - 1) mod 65535" by (simp only: mod_mult_self2)
    moreover have "fold16 n = fold16 (r + q)"
      using False by (simp add: fold16.simps [of n] q_def r_def)
    moreover have "fold16 (r + q) = (if r + q = 0 then 0 else (r + q - 1) mod 65535 + 1)"
      using 1 False by (simp add: q_def r_def)
    ultimately show ?thesis using \<open>1 \<le> q\<close> False by simp
  qed
qed

lemma fold16_bound: "fold16 n \<le> 65535"
proof -
  have "(n - 1) mod 65535 < 65535" by simp
  then show ?thesis by (simp only: fold16_closed) auto
qed

lemma fold16_complement: "fold16 (n + (65535 - fold16 n)) = 65535"
proof (cases "n = 0")
  case True
  then show ?thesis by (simp add: fold16_closed)
next
  case False
  define q r where "q = (n - 1) div 65535" and "r = (n - 1) mod 65535"
  have "n - 1 = q * 65535 + r" unfolding q_def r_def by simp
  moreover have f: "fold16 n = r + 1"
    using False by (simp add: fold16_closed r_def)
  moreover have "r < 65535" unfolding r_def by simp
  ultimately have "n + (65535 - fold16 n) = (q * 65535 + 65534) + 1" using False by linarith
  then show ?thesis by (simp add: fold16_closed)
qed

subsection \<open>Laws of the checksum\<close>

lemma sum16_append: "even (length xs) \<Longrightarrow> sum16 (xs @ ys) = sum16 xs + sum16 ys"
  by (induction xs rule: sum16.induct) simp_all

text \<open>
  \<open>buf[k..k + 2].copy_from_slice(&c)\<close>: slicing past the end of the buffer panics.
\<close>

definition write_slice2 :: "nat \<Rightarrow> u8 \<times> u8 \<Rightarrow> bytes \<Rightarrow> bytes option" where
  "write_slice2 k c buf =
     (if k + 2 \<le> length buf then Some (buf[k := fst c, Suc k := snd c]) else None)"

lemma write_slice2_append:
  "length xs = k \<Longrightarrow>
   write_slice2 k c (xs @ a # b # ys) = Some (xs @ fst c # snd c # ys)"
  by (simp add: write_slice2_def list_update_append)

lemma internet_checksum_zero:
  "internet_checksum bs = (0, 0) \<longleftrightarrow> fold16 (sum16 bs) = 65535"
proof -
  define n where "n = 65535 - fold16 (sum16 bs)"
  have n: "n < 2 ^ 16" unfolding n_def by simp
  have "internet_checksum bs = (0, 0) \<longleftrightarrow> be16 (word_of_nat n) = [0, 0]"
    by (simp add: internet_checksum_def be16_two n_def Let_def)
  also have "\<dots> \<longleftrightarrow> (word_of_nat n :: u16) = 0"
  proof
    assume "be16 (word_of_nat n) = [0, 0]"
    then have "(word_of_nat n :: u16) = of_be16 [0, 0]" by (metis of_be_be(1))
    then show "(word_of_nat n :: u16) = 0" by (simp add: of_be16_def nat_of_be_def)
  qed (simp add: be16_two)
  also have "\<dots> \<longleftrightarrow> n = 0"
    using n by (simp add: word_of_nat_eq_0_iff nat_dvd_not_less) (metis gr0I nat_dvd_not_less dvd_0_right)
  also have "\<dots> \<longleftrightarrow> fold16 (sum16 bs) = 65535"
    using fold16_bound [of "sum16 bs"] by (auto simp: n_def)
  finally show ?thesis .
qed

lemma checksum_word:
  "unat (fst (internet_checksum bs)) * 256 + unat (snd (internet_checksum bs))
   = 65535 - fold16 (sum16 bs)"
proof -
  define w :: u16 where "w = word_of_nat (65535 - fold16 (sum16 bs))"
  have "nat_of_be (be16 w) = unat w"
    using unsigned_less [of w, where 'a = nat] by (simp add: be16_def nat_of_be_nat_be del: nat_be_numeral)
  then have "unat (fst (internet_checksum bs)) * 256 + unat (snd (internet_checksum bs)) = unat w"
    by (simp add: internet_checksum_def be16_two w_def Let_def nat_of_be_def)
  then show ?thesis by (simp add: w_def unat_of_nat take_bit_eq_mod)
qed

text \<open>
  The point of the checksum field: a message whose two checksum bytes were zero, once the
  checksum of the whole is written over them, sums up to zero.
\<close>

lemma checksum_fills_in:
  assumes "even (length xs)" and "c = internet_checksum (xs @ 0 # 0 # ys)"
  shows "internet_checksum (xs @ fst c # snd c # ys) = (0, 0)"
proof -
  let ?s = "sum16 (xs @ 0 # 0 # ys)"
  have "sum16 (xs @ fst c # snd c # ys) = ?s + (unat (fst c) * 256 + unat (snd c))"
    using assms(1) by (simp add: sum16_append)
  also have "\<dots> = ?s + (65535 - fold16 ?s)"
    by (simp only: assms(2) checksum_word)
  finally show ?thesis
    by (simp add: internet_checksum_zero fold16_complement)
qed

lemma fold16_eq_max: "fold16 n = 65535 \<longleftrightarrow> 0 < n \<and> 65535 dvd n"
proof -
  have "(n - 1) mod 65535 + 1 = 65535 \<longleftrightarrow> 65535 dvd n" if pos: "0 < n"
  proof -
    obtain m where "n = Suc m" using pos by (cases n) auto
    moreover have "m mod 65535 + 1 = 65535 \<longleftrightarrow> Suc m mod 65535 = 0"
      using mod_Suc [of m 65535] by (auto split: if_splits)
    ultimately show ?thesis by (simp add: dvd_eq_mod_eq_0)
  qed
  then show ?thesis by (simp add: fold16_closed)
qed

text \<open>
  A changed byte changes the sum by less than 65535, so it cannot go unnoticed.
\<close>

lemma sum16_update:
  "i < length bs \<Longrightarrow>
   sum16 (bs[i := x]) + (if even i then 256 else 1) * unat (bs ! i)
   = sum16 bs + (if even i then 256 else 1) * unat x"
proof (induction bs arbitrary: i rule: sum16.induct)
  case 1
  then show ?case by simp
next
  case (2 a)
  then show ?case by simp
next
  case (3 a b bs)
  consider "i = 0" | "i = 1" | j where "i = Suc (Suc j)"
    by (metis One_nat_def not0_implies_Suc)
  then show ?case
  proof cases
    case 3
    with "3.prems" "3.IH" [of j] show ?thesis by simp
  qed simp_all
qed

lemma internet_checksum_update:
  assumes "i < length bs" and "x \<noteq> bs ! i" and "internet_checksum bs = (0, 0)"
  shows "internet_checksum (bs[i := x]) \<noteq> (0, 0)"
proof
  assume "internet_checksum (bs[i := x]) = (0, 0)"
  define k where "k = (if even i then 256 else 1 :: int)"
  define a b where "a = int (unat x)" and "b = int (unat (bs ! i))"
  define d where "d = k * (a - b)"
  have "int (sum16 (bs[i := x]) + (if even i then 256 else 1) * unat (bs ! i))
        = int (sum16 bs + (if even i then 256 else 1) * unat x)"
    using sum16_update [OF assms(1), of x] by simp
  then have "int (sum16 (bs[i := x])) - int (sum16 bs) = d"
    by (simp add: k_def d_def a_def b_def algebra_simps split: if_splits)
  moreover have "65535 dvd int (sum16 (bs[i := x])) - int (sum16 bs)"
    using assms(3) \<open>internet_checksum (bs[i := x]) = (0, 0)\<close>
    by (intro dvd_diff) (simp_all add: internet_checksum_zero fold16_eq_max int_dvd_int_iff [symmetric])
  ultimately have "65535 dvd d" by simp
  moreover have "\<bar>d\<bar> < 65535"
  proof -
    have "0 \<le> a" "a < 256" "0 \<le> b" "b < 256"
      using unat_lt_256 [of x] unat_lt_256 [of "bs ! i"] by (simp_all add: a_def b_def del: of_nat_unat)
    then show ?thesis by (auto simp: d_def k_def)
  qed
  moreover have "d \<noteq> 0"
    using assms(2) by (simp add: d_def k_def a_def b_def word_unat_eq_iff del: of_nat_unat)
  ultimately show False using zdvd_not_zless [of "\<bar>d\<bar>" 65535] by simp
qed

section \<open>The interface\<close>

locale wire_crates =
  fixes C :: crates
  assumes put_u8: "put_u8 C b x = b @ [x]"
    and put_u16: "put_u16 C b h = b @ be16 h"
    and put_u32: "put_u32 C b w = b @ be32 w"
    and put_u128: "put_u128 C b d = b @ be128 d"
    and put_slice: "put_slice C b s = b @ s"
    and get_u8: "get_u8 C b = (case b of [] \<Rightarrow> None | x # r \<Rightarrow> Some (x, r))"
    and get_u16: "get_u16 C b = (if length b < 2 then None else Some (of_be16 (take 2 b), drop 2 b))"
    and get_u32: "get_u32 C b = (if length b < 4 then None else Some (of_be32 (take 4 b), drop 4 b))"
    and get_u128: "get_u128 C b = (if length b < 16 then None else Some (of_be128 (take 16 b), drop 16 b))"
    and checksum: "list_all (\<lambda>c. even (length c)) cs \<Longrightarrow> checksum C cs = internet_checksum (concat cs)"
begin

lemmas put_simps = put_u8 put_u16 put_u32 put_u128 put_slice

lemma get_u32_be32: "get_u32 C (be32 w @ rest) = Some (w, rest)"
  by (simp add: get_u32)

lemma get_u128_be128: "get_u128 C (be128 w @ rest) = Some (w, rest)"
  by (simp add: get_u128)

lemma foldl_put_u32: "foldl (put_u32 C) b ws = b @ concat (map be32 ws)"
proof -
  have "put_u32 C = (\<lambda>b w. b @ be32 w)" by (intro ext) (rule put_u32)
  then show ?thesis by (simp add: foldl_append_enc)
qed

lemma foldl_put_u128: "foldl (put_u128 C) b ws = b @ concat (map be128 ws)"
proof -
  have "put_u128 C = (\<lambda>b w. b @ be128 w)" by (intro ext) (rule put_u128)
  then show ?thesis by (simp add: foldl_append_enc)
qed

lemma get_u32_inverse: "get_u32 C b = Some (w, r) \<Longrightarrow> b = be32 w @ r"
  by (auto simp: get_u32 be_of_be split: if_splits)

lemma get_u128_inverse: "get_u128 C b = Some (w, r) \<Longrightarrow> b = be128 w @ r"
  by (auto simp: get_u128 be_of_be split: if_splits)

end

text \<open>
  The laws hold of byte lists with the standard big-endian conversions. Addresses with a
  prefix are printed here in a fixed-width form; nothing about their text is used by the
  wire code.
\<close>

definition raw_string :: "bytes \<Rightarrow> string" where
  "raw_string bs = map (\<lambda>b. char_of (unat b)) bs"

definition raw_bytes :: "string \<Rightarrow> bytes" where
  "raw_bytes s = map (\<lambda>c. word_of_nat (of_char c)) s"

lemma raw_bytes_string [simp]: "raw_bytes (raw_string bs) = bs"
  using unat_lt_256 by (induction bs) (simp_all add: raw_bytes_def raw_string_def)

definition parse_raw :: "string \<Rightarrow> ip_net option" where
  "parse_raw s = (let b = raw_bytes s in
     if length b = 5 \<and> unat (b ! 4) \<le> 32
     then Some (NetV4 \<lparr>addr4 = of_be32 (take 4 b), prefix_len4 = b ! 4\<rparr>)
     else if length b = 17 \<and> unat (b ! 16) \<le> 128
     then Some (NetV6 \<lparr>addr6 = of_be128 (take 16 b), prefix_len6 = b ! 16\<rparr>)
     else None)"

definition list_crates :: crates where
  "list_crates = \<lparr>
     put_u8 = (\<lambda>b x. b @ [x]),
     put_u16 = (\<lambda>b h. b @ be16 h),
     put_u32 = (\<lambda>b w. b @ be32 w),
     put_u128 = (\<lambda>b d. b @ be128 d),
     put_slice = (\<lambda>b s. b @ s),
     get_u8 = (\<lambda>b. case b of [] \<Rightarrow> None | x # r \<Rightarrow> Some (x, r)),
     get_u16 = (\<lambda>b. if length b < 2 then None else Some (of_be16 (take 2 b), drop 2 b)),
     get_u32 = (\<lambda>b. if length b < 4 then None else Some (of_be32 (take 4 b), drop 4 b)),
     get_u128 = (\<lambda>b. if length b < 16 then None else Some (of_be128 (take 16 b), drop 16 b)),
     checksum = (\<lambda>cs. internet_checksum (concat cs)),
     parse_ipnet = parse_raw,
     show_ipv4_net = (\<lambda>n. raw_string (be32 (addr4 n) @ [prefix_len4 n])),
     show_ipv6_net = (\<lambda>n. raw_string (be128 (addr6 n) @ [prefix_len6 n]))\<rparr>"

interpretation lc: wire_crates list_crates
  by unfold_locales (simp_all add: list_crates_def)

text \<open>
  The text of an address with a prefix: printing a network whose prefix length is in range
  gives something that parses to the same network, and parsing only gives such networks.
\<close>

definition net_ok4 :: "ipv4_net \<Rightarrow> bool" where
  "net_ok4 n \<longleftrightarrow> unat (prefix_len4 n) \<le> 32"

definition net_ok6 :: "ipv6_net \<Rightarrow> bool" where
  "net_ok6 n \<longleftrightarrow> unat (prefix_len6 n) \<le> 128"

locale ip_text =
  fixes C :: crates
  assumes parse_show4: "net_ok4 n \<Longrightarrow> parse_ipnet C (show_ipv4_net C n) = Some (NetV4 n)"
    and parse_show6: "net_ok6 m \<Longrightarrow> parse_ipnet C (show_ipv6_net C m) = Some (NetV6 m)"
    and parse_ok4: "parse_ipnet C s = Some (NetV4 n) \<Longrightarrow> net_ok4 n"
    and parse_ok6: "parse_ipnet C s = Some (NetV6 m) \<Longrightarrow> net_ok6 m"
begin

text \<open>Two networks that print alike are equal, so their requests are too.\<close>

lemma show4_inj: "net_ok4 a \<Longrightarrow> net_ok4 b \<Longrightarrow> show_ipv4_net C a = show_ipv4_net C b \<longleftrightarrow> a = b"
  by (metis ip_net.inject(1) option.inject parse_show4)

lemma show6_inj: "net_ok6 a \<Longrightarrow> net_ok6 b \<Longrightarrow> show_ipv6_net C a = show_ipv6_net C b \<longleftrightarrow> a = b"
  by (metis ip_net.inject(2) option.inject parse_show6)

end

interpretation lt: ip_text list_crates
proof unfold_locales
  show "parse_ipnet list_crates (show_ipv4_net list_crates n) = Some (NetV4 n)" if "net_ok4 n" for n
    using that by (simp add: list_crates_def parse_raw_def Let_def net_ok4_def nth_append)
  show "parse_ipnet list_crates (show_ipv6_net list_crates m) = Some (NetV6 m)" if "net_ok6 m" for m
    using that by (simp add: list_crates_def parse_raw_def Let_def net_ok6_def nth_append)
  show "net_ok4 n" if "parse_ipnet list_crates s = Some (NetV4 n)" for s n
    using that by (auto simp: list_crates_def parse_raw_def Let_def net_ok4_def split: if_splits)
  show "net_ok6 m" if "parse_ipnet list_crates s = Some (NetV6 m)" for s m
    using that by (auto simp: list_crates_def parse_raw_def Let_def net_ok6_def split: if_splits)
qed

end
