(* ===== verification/Packet.thy ===== *)
theory Packet
  imports Crates
begin

text \<open>
  The VRRP message of \<open>src/src/packet.rs\<close>: \<open>VrrpPacket\<close> with its encoders and decoders for
  IPv4 (versions 2 and 3) and IPv6 (version 3). The layout lemmas give the exact bytes
  \<open>encode\<close> writes; the grammar \<open>wire_v4\<close>, \<open>wire_v6\<close> says which byte strings are messages,
  and the decoders accept exactly those. A decoded packet is well formed and survives being
  encoded again.
\<close>

section \<open>The message and its encoder\<close>

definition VRRP_PROTO_NUM :: u8 where "VRRP_PROTO_NUM = 112"
definition ICMPV6_PROTO_NUM :: u8 where "ICMPV6_PROTO_NUM = 58"

definition VRRP_V6_MCAST_ADDR :: u128 where
  "VRRP_V6_MCAST_ADDR = ipv6_new 0xff02 0 0 0 0 0 0 0x12"

definition ALL_NODES_V6_MCAST_ADDR :: u128 where
  "ALL_NODES_V6_MCAST_ADDR = ipv6_new 0xff02 0 0 0 0 0 0 1"

record vrrp_packet =
  version :: vrrp_version
  vrid :: u8
  priority :: u8
  adver_int_cs :: u16
  addresses :: vrrp_addresses

definition MAX_IP_COUNT :: nat where "MAX_IP_COUNT = 16"
definition HDWR_TYPE :: u8 where "HDWR_TYPE = 1"
definition FIXED_HEADER_LEN :: nat where "FIXED_HEADER_LEN = 8"
definition V2_AUTH_TRAILER_LEN :: nat where "V2_AUTH_TRAILER_LEN = 8"

definition encode_v4 :: "crates \<Rightarrow> vrrp_packet \<Rightarrow> u32 list \<Rightarrow> bytes option" where
  "encode_v4 C p addrs =
     (let ver_type = push_bit 4 (as_u8 (version p)) OR HDWR_TYPE;
          buf = put_u8 C [] ver_type;
          buf = put_u8 C buf (vrid p);
          buf = put_u8 C buf (priority p);
          buf = put_u8 C buf (word_of_nat (length addrs));
          buf = (case version p of
                   V2 \<Rightarrow> put_u8 C (put_u8 C buf 0) (ucast (adver_int_cs p div 100))
                 | V3 \<Rightarrow> put_u16 C buf (adver_int_cs p AND 0x0FFF));
          buf = put_u16 C buf 0;
          buf = foldl (put_u32 C) buf addrs;
          buf = (if version p = V2 then put_u32 C (put_u32 C buf 0) 0 else buf)
      in write_slice2 6 (checksum C [buf]) buf)"

definition encode_v6 :: "crates \<Rightarrow> vrrp_packet \<Rightarrow> u128 \<Rightarrow> u128 list \<Rightarrow> bytes option" where
  "encode_v6 C p src_ip addrs =
     (let ver_type = push_bit 4 (as_u8 (version p)) OR HDWR_TYPE;
          buf = put_u8 C [] ver_type;
          buf = put_u8 C buf (vrid p);
          buf = put_u8 C buf (priority p);
          buf = put_u8 C buf (word_of_nat (length addrs));
          buf = put_u16 C buf (adver_int_cs p AND 0x0FFF);
          buf = put_u16 C buf 0;
          buf = foldl (put_u128 C) buf addrs
      in write_slice2 6
           (checksum C [octets6 src_ip, octets6 VRRP_V6_MCAST_ADDR,
                        be32 (word_of_nat (length buf)), [0, 0, 0, VRRP_PROTO_NUM], buf]) buf)"

definition encode :: "crates \<Rightarrow> vrrp_packet \<Rightarrow> ip_addr \<Rightarrow> bytes option" where
  "encode C p src_ip =
     (case addresses p of
        AddrsV4 addrs \<Rightarrow> encode_v4 C p addrs
      | AddrsV6 addrs \<Rightarrow>
          (let src = (case src_ip of IpV6 v6 \<Rightarrow> v6 | IpV4 _ \<Rightarrow> UNSPECIFIED6)
           in encode_v6 C p src addrs))"

section \<open>The decoder\<close>

definition verify_checksum_v4 :: "crates \<Rightarrow> bytes \<Rightarrow> bool" where
  "verify_checksum_v4 C data \<longleftrightarrow> checksum C [data] = (0, 0)"

definition verify_checksum_v6 :: "crates \<Rightarrow> bytes \<Rightarrow> u128 \<Rightarrow> u128 \<Rightarrow> bool" where
  "verify_checksum_v6 C data src dst \<longleftrightarrow>
     checksum C [octets6 src, octets6 dst, be32 (word_of_nat (length data)),
                 [0, 0, 0, VRRP_PROTO_NUM], data] = (0, 0)"

definition decode_v4 :: "crates \<Rightarrow> bytes \<Rightarrow> (packet_error + vrrp_packet) option" where
  "decode_v4 C data =
     (if data = [] then Some (Inl Malformed)
      else do {
        (ver_type, buf) \<leftarrow> get_u8 C data;
        case version_try_from (drop_bit 4 ver_type) of
          Inl e \<Rightarrow> Some (Inl e)
        | Inr ver \<Rightarrow>
            if length data < FIXED_HEADER_LEN then Some (Inl Malformed)
            else do {
              (vid, buf) \<leftarrow> get_u8 C buf;
              (prio, buf) \<leftarrow> get_u8 C buf;
              (count_ip, buf) \<leftarrow> get_u8 C buf;
              (cs, buf) \<leftarrow> (case ver of
                 V2 \<Rightarrow> do {
                   (_, buf) \<leftarrow> get_u8 C buf;
                   (seconds, buf) \<leftarrow> get_u8 C buf;
                   Some ((ucast seconds :: u16) * 100, buf)
                 }
               | V3 \<Rightarrow> do {
                   (field, buf) \<leftarrow> get_u16 C buf;
                   Some (field AND 0x0FFF, buf)
                 });
              let trailing_auth_len = (if ver = V2 then V2_AUTH_TRAILER_LEN else 0);
                  expected_len = FIXED_HEADER_LEN + trailing_auth_len + unat count_ip * 4
              in if unat count_ip > MAX_IP_COUNT \<or> expected_len \<noteq> length data
                 then Some (Inl Malformed)
                 else if \<not> verify_checksum_v4 C data then Some (Inl BadChecksum)
                 else do {
                   (_, buf) \<leftarrow> get_u16 C buf;
                   (addrs, buf) \<leftarrow> take_n (get_u32 C) (unat count_ip) buf;
                   _ \<leftarrow> (if ver = V2 then do {
                           (_, buf) \<leftarrow> get_u32 C buf;
                           (_, buf) \<leftarrow> get_u32 C buf;
                           Some buf
                         } else Some buf);
                   Some (Inr \<lparr>version = ver, vrid = vid, priority = prio,
                              adver_int_cs = cs, addresses = AddrsV4 addrs\<rparr>)
                 }
            }
      })"

definition decode_v6 :: "crates \<Rightarrow> bytes \<Rightarrow> u128 \<Rightarrow> u128 \<Rightarrow> (packet_error + vrrp_packet) option" where
  "decode_v6 C data src_ip dst_ip =
     (if data = [] then Some (Inl Malformed)
      else do {
        (ver_type, buf) \<leftarrow> get_u8 C data;
        let version_raw = drop_bit 4 ver_type
        in case version_try_from version_raw of
          Inl e \<Rightarrow> Some (Inl e)
        | Inr ver \<Rightarrow>
            if ver \<noteq> V3 then Some (Inl (UnsupportedVersion version_raw))
            else if length data < FIXED_HEADER_LEN then Some (Inl Malformed)
            else do {
              (vid, buf) \<leftarrow> get_u8 C buf;
              (prio, buf) \<leftarrow> get_u8 C buf;
              (count_ip, buf) \<leftarrow> get_u8 C buf;
              (field, buf) \<leftarrow> get_u16 C buf;
              let cs = field AND 0x0FFF;
                  expected_len = FIXED_HEADER_LEN + unat count_ip * 16
              in if unat count_ip > MAX_IP_COUNT \<or> expected_len \<noteq> length data
                 then Some (Inl Malformed)
                 else if \<not> verify_checksum_v6 C data src_ip dst_ip then Some (Inl BadChecksum)
                 else do {
                   (_, buf) \<leftarrow> get_u16 C buf;
                   (addrs, buf) \<leftarrow> take_n (get_u128 C) (unat count_ip) buf;
                   Some (Inr \<lparr>version = ver, vrid = vid, priority = prio,
                              adver_int_cs = cs, addresses = AddrsV6 addrs\<rparr>)
                 }
            }
      })"

definition decode :: "crates \<Rightarrow> bytes \<Rightarrow> ip_addr \<Rightarrow> ip_addr \<Rightarrow> (packet_error + vrrp_packet) option" where
  "decode C data src_ip dst_ip =
     (case (src_ip, dst_ip) of
        (IpV4 _, _) \<Rightarrow> decode_v4 C data
      | (IpV6 src, IpV6 dst) \<Rightarrow> decode_v6 C data src dst
      | (IpV6 _, IpV4 _) \<Rightarrow> Some (Inl Malformed))"

section \<open>What the decoders compute\<close>

text \<open>
  The decoders read through a cursor and check lengths as they go. The reference decoders
  look fields up by position; that the two agree shows at once that no read runs past the
  end of the buffer (no panic) and which error is reported when several checks fail.
\<close>

fun words4 :: "nat \<Rightarrow> bytes \<Rightarrow> u32 list" where
  "words4 0 b = []"
| "words4 (Suc n) b = of_be32 (take 4 b) # words4 n (drop 4 b)"

fun words16 :: "nat \<Rightarrow> bytes \<Rightarrow> u128 list" where
  "words16 0 b = []"
| "words16 (Suc n) b = of_be128 (take 16 b) # words16 n (drop 16 b)"

fun interval_of :: "vrrp_version \<Rightarrow> u8 \<Rightarrow> u8 \<Rightarrow> u16" where
  "interval_of V2 a b = ucast b * 100"
| "interval_of V3 a b = of_be16 [a, b] AND 0x0FFF"

fun auth_len :: "vrrp_version \<Rightarrow> nat" where
  "auth_len V2 = 8"
| "auth_len V3 = 0"

definition ref_decode_v4 :: "bytes \<Rightarrow> packet_error + vrrp_packet" where
  "ref_decode_v4 data =
     (if data = [] then Inl Malformed
      else case version_try_from (drop_bit 4 (data ! 0)) of
        Inl e \<Rightarrow> Inl e
      | Inr ver \<Rightarrow>
          let n = unat (data ! 3) in
          if length data < 8 \<or> n > 16 \<or> length data \<noteq> 8 + auth_len ver + n * 4 then Inl Malformed
          else if internet_checksum data \<noteq> (0, 0) then Inl BadChecksum
          else Inr \<lparr>version = ver, vrid = data ! 1, priority = data ! 2,
                    adver_int_cs = interval_of ver (data ! 4) (data ! 5),
                    addresses = AddrsV4 (words4 n (drop 8 data))\<rparr>)"

definition ref_decode_v6 :: "bytes \<Rightarrow> u128 \<Rightarrow> u128 \<Rightarrow> packet_error + vrrp_packet" where
  "ref_decode_v6 data src dst =
     (if data = [] then Inl Malformed
      else if drop_bit 4 (data ! 0) \<noteq> 3 then Inl (UnsupportedVersion (drop_bit 4 (data ! 0)))
      else let n = unat (data ! 3) in
          if length data < 8 \<or> n > 16 \<or> length data \<noteq> 8 + n * 16 then Inl Malformed
          else if internet_checksum (octets6 src @ octets6 dst @ be32 (word_of_nat (length data))
                 @ [0, 0, 0, 112] @ data) \<noteq> (0, 0) then Inl BadChecksum
          else Inr \<lparr>version = V3, vrid = data ! 1, priority = data ! 2,
                    adver_int_cs = interval_of V3 (data ! 4) (data ! 5),
                    addresses = AddrsV6 (words16 n (drop 8 data))\<rparr>)"

lemma words4_concat [simp]: "words4 (length ws) (concat (map be32 ws) @ rest) = ws"
  by (induction ws) simp_all

lemma words16_concat [simp]: "words16 (length ws) (concat (map be128 ws) @ rest) = ws"
  by (induction ws) simp_all

lemma length_words [simp]: "length (words4 n b) = n" "length (words16 n b) = n"
  by (induction n arbitrary: b) simp_all

lemma concat_words4: "n * 4 \<le> length b \<Longrightarrow> concat (map be32 (words4 n b)) = take (n * 4) b"
proof (induction n arbitrary: b)
  case 0
  then show ?case by simp
next
  case (Suc n)
  then have "concat (map be32 (words4 n (drop 4 b))) = take (n * 4) (drop 4 b)" by simp
  with Suc.prems show ?case by (simp add: be_of_be take_add)
qed

lemma concat_words16: "n * 16 \<le> length b \<Longrightarrow> concat (map be128 (words16 n b)) = take (n * 16) b"
proof (induction n arbitrary: b)
  case 0
  then show ?case by simp
next
  case (Suc n)
  then have "concat (map be128 (words16 n (drop 16 b))) = take (n * 16) (drop 16 b)" by simp
  with Suc.prems show ?case by (simp add: be_of_be take_add)
qed

context wire_crates
begin

lemma take_n_words4:
  "n * 4 \<le> length b \<Longrightarrow> take_n (get_u32 C) n b = Some (words4 n b, drop (n * 4) b)"
  by (induction n arbitrary: b) (simp_all add: get_u32 add.commute)

lemma take_n_words16:
  "n * 16 \<le> length b \<Longrightarrow> take_n (get_u128 C) n b = Some (words16 n b, drop (n * 16) b)"
  by (induction n arbitrary: b) (simp_all add: get_u128 add.commute)

lemma verify_v4: "even (length data) \<Longrightarrow> verify_checksum_v4 C data \<longleftrightarrow> internet_checksum data = (0, 0)"
  by (simp add: verify_checksum_v4_def checksum)

lemma verify_v6:
  "even (length data) \<Longrightarrow> verify_checksum_v6 C data src dst \<longleftrightarrow>
     internet_checksum (octets6 src @ octets6 dst @ be32 (word_of_nat (length data))
       @ [0, 0, 0, 112] @ data) = (0, 0)"
  by (auto simp: verify_checksum_v6_def VRRP_PROTO_NUM_def checksum)

lemma even_of_mult [simp]:
  "unat (d :: u8) * 4 = n \<Longrightarrow> even n" "8 + unat d * 4 = n \<Longrightarrow> even n" "unat d * 16 = n \<Longrightarrow> even n"
  by auto

lemmas reader_simps = get_u8 get_u16 get_u32 get_u128 FIXED_HEADER_LEN_def
  V2_AUTH_TRAILER_LEN_def MAX_IP_COUNT_def

theorem decode_v4_ref: "decode_v4 C data = Some (ref_decode_v4 data)"
proof (cases "length data < 8")
  case True
  then show ?thesis
    by (cases data) (auto simp: decode_v4_def ref_decode_v4_def reader_simps split: sum.split)
next
  case False
  then obtain a b c d e f g h rest where data: "data = a # b # c # d # e # f # g # h # rest"
    by (meson list_8_exhaust not_less)
  show ?thesis
  proof (cases "version_try_from (drop_bit 4 a)")
    case (Inl err)
    then show ?thesis by (simp add: decode_v4_def ref_decode_v4_def reader_simps data)
  next
    case (Inr ver)
    then show ?thesis
      by (cases ver)
        (auto simp: decode_v4_def ref_decode_v4_def reader_simps data verify_v4 take_n_words4
          Let_def)
  qed
qed

theorem decode_v6_ref: "decode_v6 C data src dst = Some (ref_decode_v6 data src dst)"
proof (cases "length data < 8")
  case True
  then show ?thesis
    by (cases data)
      (auto simp: decode_v6_def ref_decode_v6_def reader_simps version_try_from_def Let_def)
next
  case False
  then obtain a b c d e f g h rest where data: "data = a # b # c # d # e # f # g # h # rest"
    by (meson list_8_exhaust not_less)
  then show ?thesis
    by (auto simp: decode_v6_def ref_decode_v6_def reader_simps version_try_from_def verify_v6
        take_n_words16 Let_def)
qed

end

section \<open>What the encoders write\<close>

fun interval_bytes :: "vrrp_version \<Rightarrow> u16 \<Rightarrow> bytes" where
  "interval_bytes V2 cs = [0, ucast (cs div 100)]"
| "interval_bytes V3 cs = be16 (cs AND 0x0FFF)"

text \<open>A message with the two checksum bytes \<open>c\<close>; only version 2 ends in authentication data.\<close>

definition msg_v4 :: "vrrp_packet \<Rightarrow> u32 list \<Rightarrow> u8 \<times> u8 \<Rightarrow> bytes" where
  "msg_v4 p addrs c =
     [push_bit 4 (as_u8 (version p)) OR 1, vrid p, priority p, word_of_nat (length addrs)]
     @ interval_bytes (version p) (adver_int_cs p) @ [fst c, snd c]
     @ concat (map be32 addrs) @ replicate (auth_len (version p)) 0"

definition msg_v6 :: "vrrp_packet \<Rightarrow> u128 list \<Rightarrow> u8 \<times> u8 \<Rightarrow> bytes" where
  "msg_v6 p addrs c =
     [push_bit 4 (as_u8 (version p)) OR 1, vrid p, priority p, word_of_nat (length addrs)]
     @ be16 (adver_int_cs p AND 0x0FFF) @ [fst c, snd c] @ concat (map be128 addrs)"

definition pseudo_v6 :: "u128 \<Rightarrow> u128 \<Rightarrow> nat \<Rightarrow> u8 \<Rightarrow> bytes" where
  "pseudo_v6 src dst len proto = octets6 src @ octets6 dst @ be32 (word_of_nat len) @ [0, 0, 0, proto]"

lemma length_pseudo_v6 [simp]: "length (pseudo_v6 src dst len proto) = 40"
  by (simp add: pseudo_v6_def)

lemma length_interval_bytes [simp]: "length (interval_bytes v cs) = 2"
  by (cases v) simp_all

lemma length_msg [wire_simps]:
  "length (msg_v4 p addrs c) = 8 + length addrs * 4 + auth_len (version p)"
  "length (msg_v6 p ws c) = 8 + length ws * 16"
  by (simp_all add: msg_v4_def msg_v6_def length_concat_const [where w = 4]
      length_concat_const [where w = 16])

lemma auth_len_even [simp]: "even (auth_len v)"
  by (cases v) simp_all

text \<open>The first six bytes of the fixed header, and what \<open>write_slice2\<close> does behind them.\<close>

lemma msg_v4_split:
  "\<exists>xs ys. length xs = 6 \<and> (\<forall>c. msg_v4 p addrs c = xs @ fst c # snd c # ys)"
  unfolding msg_v4_def
  by (intro exI [of _ "[push_bit 4 (as_u8 (version p)) OR 1, vrid p, priority p,
        word_of_nat (length addrs)] @ interval_bytes (version p) (adver_int_cs p)"]
      exI [of _ "concat (map be32 addrs) @ replicate (auth_len (version p)) 0"]) simp

lemma msg_v6_split:
  "\<exists>xs ys. length xs = 6 \<and> (\<forall>c. msg_v6 p addrs c = xs @ fst c # snd c # ys)"
  unfolding msg_v6_def
  by (intro exI [of _ "[push_bit 4 (as_u8 (version p)) OR 1, vrid p, priority p,
        word_of_nat (length addrs)] @ be16 (adver_int_cs p AND 0x0FFF)"]
      exI [of _ "concat (map be128 addrs)"]) simp

lemma msg_v4_patch: "write_slice2 6 c (msg_v4 p addrs c') = Some (msg_v4 p addrs c)"
proof -
  obtain xs ys where "length xs = 6" and "\<And>c. msg_v4 p addrs c = xs @ fst c # snd c # ys"
    using msg_v4_split [of p addrs] by blast
  then show ?thesis by (simp add: write_slice2_append)
qed

lemma msg_v6_patch: "write_slice2 6 c (msg_v6 p addrs c') = Some (msg_v6 p addrs c)"
proof -
  obtain xs ys where "length xs = 6" and "\<And>c. msg_v6 p addrs c = xs @ fst c # snd c # ys"
    using msg_v6_split [of p addrs] by blast
  then show ?thesis by (simp add: write_slice2_append)
qed

lemma msg_v4_checksum:
  assumes "c = internet_checksum (msg_v4 p addrs (0, 0))"
  shows "internet_checksum (msg_v4 p addrs c) = (0, 0)"
proof -
  obtain xs ys where "length xs = 6" and m: "\<And>c. msg_v4 p addrs c = xs @ fst c # snd c # ys"
    using msg_v4_split [of p addrs] by blast
  then show ?thesis using assms checksum_fills_in [of xs c ys] by simp
qed

lemma msg_v6_checksum:
  assumes "even (length pre)" and "c = internet_checksum (pre @ msg_v6 p addrs (0, 0))"
  shows "internet_checksum (pre @ msg_v6 p addrs c) = (0, 0)"
proof -
  obtain xs ys where "length xs = 6" and m: "\<And>c. msg_v6 p addrs c = xs @ fst c # snd c # ys"
    using msg_v6_split [of p addrs] by blast
  then show ?thesis using assms checksum_fills_in [of "pre @ xs" c ys] by simp
qed

lemma replicate_8: "replicate 8 (0 :: u8) = [0, 0, 0, 0, 0, 0, 0, 0]"
  by (simp add: numeral_eq_Suc)

context wire_crates
begin

lemma encode_v4_layout:
  "encode_v4 C p addrs =
   Some (msg_v4 p addrs (internet_checksum (msg_v4 p addrs (0, 0))))"
proof -
  have "encode_v4 C p addrs =
    (let buf = msg_v4 p addrs (0, 0) in write_slice2 6 (checksum C [buf]) buf)"
    by (cases "version p")
      (simp_all add: encode_v4_def msg_v4_def put_simps foldl_put_u32 HDWR_TYPE_def be_zero replicate_8)
  then show ?thesis
    by (simp add: Let_def checksum wire_simps msg_v4_patch)
qed

lemma encode_v6_layout:
  "encode_v6 C p src addrs =
   Some (msg_v6 p addrs (internet_checksum
     (pseudo_v6 src VRRP_V6_MCAST_ADDR (8 + length addrs * 16) 112 @ msg_v6 p addrs (0, 0))))"
proof -
  have "encode_v6 C p src addrs =
    (let buf = msg_v6 p addrs (0, 0) in
     write_slice2 6 (checksum C [octets6 src, octets6 VRRP_V6_MCAST_ADDR,
       be32 (word_of_nat (length buf)), [0, 0, 0, 112], buf]) buf)"
    by (simp add: encode_v6_def msg_v6_def put_simps foldl_put_u128 HDWR_TYPE_def
        VRRP_PROTO_NUM_def be_zero)
  then show ?thesis
    by (simp add: Let_def checksum wire_simps msg_v6_patch pseudo_v6_def)
qed

end

section \<open>Which byte strings are messages\<close>

text \<open>
  The grammar of a version 2 or 3 message over IPv4, and of a version 3 message over IPv6.
  The low nibble of the first byte, the authentication type and the authentication data
  are free: the decoder does not look at them.
\<close>

definition wire_v4 :: "bytes \<Rightarrow> vrrp_packet \<Rightarrow> bool" where
  "wire_v4 data p \<longleftrightarrow> (\<exists>vt i1 i2 c1 c2 addrs auth.
     data = [vt, vrid p, priority p, word_of_nat (length addrs), i1, i2, c1, c2]
            @ concat (map be32 addrs) @ auth
     \<and> drop_bit 4 vt = as_u8 (version p) \<and> length addrs \<le> 16
     \<and> interval_of (version p) i1 i2 = adver_int_cs p
     \<and> length auth = auth_len (version p) \<and> addresses p = AddrsV4 addrs
     \<and> internet_checksum data = (0, 0))"

definition wire_v6 :: "bytes \<Rightarrow> u128 \<Rightarrow> u128 \<Rightarrow> vrrp_packet \<Rightarrow> bool" where
  "wire_v6 data src dst p \<longleftrightarrow> (\<exists>vt i1 i2 c1 c2 addrs.
     data = [vt, vrid p, priority p, word_of_nat (length addrs), i1, i2, c1, c2]
            @ concat (map be128 addrs)
     \<and> drop_bit 4 vt = 3 \<and> version p = V3 \<and> length addrs \<le> 16
     \<and> interval_of V3 i1 i2 = adver_int_cs p \<and> addresses p = AddrsV6 addrs
     \<and> internet_checksum (pseudo_v6 src dst (length data) 112 @ data) = (0, 0))"

lemma wire_v4I:
  assumes "data = [vt, vrid p, priority p, word_of_nat (length addrs), i1, i2, c1, c2]
                  @ concat (map be32 addrs) @ auth"
    and "drop_bit 4 vt = as_u8 (version p)" and "length addrs \<le> 16"
    and "interval_of (version p) i1 i2 = adver_int_cs p"
    and "length auth = auth_len (version p)" and "addresses p = AddrsV4 addrs"
    and "internet_checksum data = (0, 0)"
  shows "wire_v4 data p"
  unfolding wire_v4_def using assms by blast

lemma wire_v6I:
  assumes "data = [vt, vrid p, priority p, word_of_nat (length addrs), i1, i2, c1, c2]
                  @ concat (map be128 addrs)"
    and "drop_bit 4 vt = 3" and "version p = V3" and "length addrs \<le> 16"
    and "interval_of V3 i1 i2 = adver_int_cs p" and "addresses p = AddrsV6 addrs"
    and "internet_checksum (pseudo_v6 src dst (length data) 112 @ data) = (0, 0)"
  shows "wire_v6 data src dst p"
  unfolding wire_v6_def using assms by blast

lemma unat_count: "n \<le> 16 \<Longrightarrow> unat (word_of_nat n :: u8) = n"
  by (simp add: unat_of_nat take_bit_eq_mod)

lemma ref_decode_v4_sound: "ref_decode_v4 data = Inr p \<Longrightarrow> wire_v4 data p"
proof -
  assume dec: "ref_decode_v4 data = Inr p"
  then have "8 \<le> length data"
    by (auto simp: ref_decode_v4_def Let_def split: if_splits sum.splits)
  then obtain a b c d e f g h rest where data: "data = a # b # c # d # e # f # g # h # rest"
    by (rule list_8_exhaust)
  define addrs where "addrs = words4 (unat d) rest"
  from dec obtain ver where ver: "version_try_from (drop_bit 4 a) = Inr ver"
    and n: "unat d \<le> 16" "length rest = auth_len ver + unat d * 4"
    and ck: "internet_checksum data = (0, 0)"
    and p: "p = \<lparr>version = ver, vrid = b, priority = c, adver_int_cs = interval_of ver e f,
                 addresses = AddrsV4 addrs\<rparr>"
    by (auto simp: ref_decode_v4_def data Let_def addrs_def split: if_splits sum.splits)
  have "rest = concat (map be32 addrs) @ drop (unat d * 4) rest"
    using n(2) by (simp add: addrs_def concat_words4)
  then have "data = [a, vrid p, priority p, word_of_nat (length addrs), e, f, g, h]
      @ concat (map be32 addrs) @ drop (unat d * 4) rest"
    by (simp add: data p addrs_def)
  moreover have "drop_bit 4 a = as_u8 (version p)"
    using ver by (simp add: version_try_from_Inr p)
  moreover have "length (drop (unat d * 4) rest) = auth_len (version p)" "length addrs \<le> 16"
    using n by (simp_all add: p addrs_def)
  ultimately show ?thesis
    unfolding wire_v4_def using ck by (auto simp: p)
qed

lemma ref_decode_v4_complete: "wire_v4 data p \<Longrightarrow> ref_decode_v4 data = Inr p"
  unfolding wire_v4_def
  by (elim exE conjE) (simp add: ref_decode_v4_def Let_def unat_count length_concat_const [where w = 4])

lemma ref_decode_v6_sound: "ref_decode_v6 data src dst = Inr p \<Longrightarrow> wire_v6 data src dst p"
proof -
  assume dec: "ref_decode_v6 data src dst = Inr p"
  then have "8 \<le> length data"
    by (auto simp: ref_decode_v6_def Let_def split: if_splits)
  then obtain a b c d e f g h rest where data: "data = a # b # c # d # e # f # g # h # rest"
    by (rule list_8_exhaust)
  define addrs where "addrs = words16 (unat d) rest"
  from dec have ver: "drop_bit 4 a = 3" and n: "unat d \<le> 16" "length rest = unat d * 16"
    and ck: "internet_checksum (pseudo_v6 src dst (length data) 112 @ data) = (0, 0)"
    and p: "p = \<lparr>version = V3, vrid = b, priority = c, adver_int_cs = interval_of V3 e f,
                 addresses = AddrsV6 addrs\<rparr>"
    by (auto simp: ref_decode_v6_def data Let_def addrs_def pseudo_v6_def split: if_splits)
  have "rest = concat (map be128 addrs)"
    using n(2) by (simp add: addrs_def concat_words16)
  then have "data = [a, vrid p, priority p, word_of_nat (length addrs), e, f, g, h]
      @ concat (map be128 addrs)"
    by (simp add: data p addrs_def)
  moreover have "length addrs \<le> 16"
    using n by (simp add: addrs_def)
  ultimately show ?thesis
    unfolding wire_v6_def using ck ver by (auto simp: p)
qed

lemma ref_decode_v6_complete: "wire_v6 data src dst p \<Longrightarrow> ref_decode_v6 data src dst = Inr p"
  unfolding wire_v6_def
  by (elim exE conjE)
    (simp add: ref_decode_v6_def Let_def unat_count length_concat_const [where w = 16] pseudo_v6_def
      words16_concat [where rest = "[]", simplified])

lemma ref_decode_v4_iff: "ref_decode_v4 data = Inr p \<longleftrightarrow> wire_v4 data p"
  by (rule iffI) (erule ref_decode_v4_sound, erule ref_decode_v4_complete)

lemma ref_decode_v6_iff: "ref_decode_v6 data src dst = Inr p \<longleftrightarrow> wire_v6 data src dst p"
  by (rule iffI) (erule ref_decode_v6_sound, erule ref_decode_v6_complete)

text \<open>An interval the fields of the version can carry, and what decoding an interval field gives.\<close>

fun interval_fits :: "vrrp_version \<Rightarrow> u16 \<Rightarrow> bool" where
  "interval_fits V2 cs \<longleftrightarrow> unat cs mod 100 = 0 \<and> unat cs \<le> 25500"
| "interval_fits V3 cs \<longleftrightarrow> unat cs \<le> 4095"

lemma and_4095: "unat (cs AND 0x0FFF :: u16) = unat cs mod 4096"
proof -
  have "(0x0FFF :: u16) = mask 12" by (simp add: mask_eq_exp_minus_1)
  then have "cs AND 0x0FFF = take_bit 12 cs" by (simp only: take_bit_eq_mask)
  then show ?thesis by (simp add: take_bit_eq_mod unat_mod_distrib)
qed

lemma interval_v3: "interval_bytes V3 cs = [a, b] \<Longrightarrow> interval_of V3 a b = cs AND 0x0FFF"
proof -
  assume "interval_bytes V3 cs = [a, b]"
  then have "of_be16 [a, b] = cs AND 0x0FFF" by (metis interval_bytes.simps(2) of_be_be(1))
  then show ?thesis by (simp add: and.assoc)
qed

lemma interval_v2:
  assumes "interval_fits V2 cs"
  shows "interval_of V2 0 (ucast (cs div 100)) = cs"
proof -
  have q: "unat cs = unat cs div 100 * 100" and b: "unat cs div 100 \<le> 255"
    using assms by auto
  have "unat (ucast (cs div 100) :: u8) = unat cs div 100"
    using b by (simp add: unsigned_ucast_eq take_bit_eq_mod unat_div_distrib unat_mod_distrib)
  then have "unat (ucast (ucast (cs div 100) :: u8) :: u16) = unat cs div 100"
    using b by (simp add: unsigned_ucast_eq take_bit_eq_mod unat_div_distrib unat_mod_distrib)
  then have "unat (ucast (ucast (cs div 100) :: u8) * 100 :: u16) = unat cs div 100 * 100"
    using b by (simp add: unat_word_ariths)
  then show ?thesis using q by (simp add: word_unat_eq_iff)
qed

lemma interval_roundtrip:
  assumes "interval_fits v cs"
  obtains a b where "interval_bytes v cs = [a, b]" and "interval_of v a b = cs"
proof (cases v)
  case V2
  then show ?thesis using assms interval_v2 that by simp
next
  case V3
  have "cs AND 0x0FFF = cs"
    using assms V3 by (simp add: word_unat_eq_iff and_4095)
  then show ?thesis using V3 interval_v3 that by (metis be16_two interval_bytes.simps(2))
qed

lemma ver_type_nibble [simp]:
  "drop_bit 4 (push_bit 4 (as_u8 v) OR 1) = as_u8 v" "drop_bit 4 (push_bit 4 (as_u8 v)) = as_u8 v"
  by (cases v; simp)+

lemma msg_v4_wire:
  assumes "addresses p = AddrsV4 addrs" and "length addrs \<le> 16"
    and "interval_fits (version p) (adver_int_cs p)"
    and "internet_checksum (msg_v4 p addrs c) = (0, 0)"
  shows "wire_v4 (msg_v4 p addrs c) p"
proof -
  obtain i1 i2 where "interval_bytes (version p) (adver_int_cs p) = [i1, i2]"
    and "interval_of (version p) i1 i2 = adver_int_cs p"
    using assms(3) by (rule interval_roundtrip)
  with assms show ?thesis
    by (intro wire_v4I [where vt = "push_bit 4 (as_u8 (version p)) OR 1" and ?i1.0 = i1 and ?i2.0 = i2
        and ?c1.0 = "fst c" and ?c2.0 = "snd c" and addrs = addrs
        and auth = "replicate (auth_len (version p)) 0"])
      (simp_all add: msg_v4_def)
qed

lemma msg_v6_wire:
  assumes "addresses p = AddrsV6 addrs" and "length addrs \<le> 16" and "version p = V3"
    and "interval_fits V3 (adver_int_cs p)"
    and "internet_checksum (pseudo_v6 src dst (length (msg_v6 p addrs c)) 112 @ msg_v6 p addrs c) = (0, 0)"
  shows "wire_v6 (msg_v6 p addrs c) src dst p"
proof -
  obtain i1 i2 where b: "interval_bytes V3 (adver_int_cs p) = [i1, i2]"
    and iv: "interval_of V3 i1 i2 = adver_int_cs p"
    using assms(4) by (rule interval_roundtrip)
  show ?thesis
    by (rule wire_v6I [where vt = "push_bit 4 (as_u8 V3) OR 1",
          OF _ _ assms(3) assms(2) iv assms(1) assms(5)])
      (use b assms(3) in \<open>simp_all add: msg_v6_def\<close>)
qed

section \<open>The interface of the codec\<close>

text \<open>What the rest of the program relies on.\<close>

context wire_crates
begin

lemma decode_total: "\<exists>r. decode C data src dst = Some r"
  by (cases src; cases dst) (auto simp: decode_def decode_v4_ref decode_v6_ref)

lemma encode_total: "\<exists>b. encode C p src = Some b"
  by (auto simp: encode_def encode_v4_layout encode_v6_layout Let_def split: vrrp_addresses.split)

lemma decode_v4_iff: "decode_v4 C data = Some (Inr p) \<longleftrightarrow> wire_v4 data p"
  by (simp add: decode_v4_ref ref_decode_v4_iff)

lemma decode_v6_iff: "decode_v6 C data src dst = Some (Inr p) \<longleftrightarrow> wire_v6 data src dst p"
  by (simp add: decode_v6_ref ref_decode_v6_iff)

lemma decode_encode_v4:
  assumes "addresses p = AddrsV4 addrs" and "length addrs \<le> 16"
    and "interval_fits (version p) (adver_int_cs p)"
    and "encode C p any_src = Some b"
  shows "decode C b (IpV4 s) d = Some (Inr p)"
proof -
  from assms have "b = msg_v4 p addrs (internet_checksum (msg_v4 p addrs (0, 0)))"
    by (simp add: encode_def encode_v4_layout)
  then have "wire_v4 b p"
    using assms msg_v4_checksum msg_v4_wire by blast
  then show ?thesis by (simp add: decode_def decode_v4_iff)
qed

lemma decode_encode_v6:
  assumes "addresses p = AddrsV6 addrs" and "length addrs \<le> 16" and "version p = V3"
    and "interval_fits V3 (adver_int_cs p)"
    and "encode C p (IpV6 s) = Some b"
  shows "decode C b (IpV6 s) (IpV6 VRRP_V6_MCAST_ADDR) = Some (Inr p)"
proof -
  let ?pre = "pseudo_v6 s VRRP_V6_MCAST_ADDR (8 + length addrs * 16) 112"
  from assms have b: "b = msg_v6 p addrs (internet_checksum (?pre @ msg_v6 p addrs (0, 0)))"
    by (simp add: encode_def encode_v6_layout)
  then have "internet_checksum (?pre @ b) = (0, 0)"
    using msg_v6_checksum [of ?pre] by simp
  then have "wire_v6 b s VRRP_V6_MCAST_ADDR p"
    using msg_v6_wire [OF assms(1-4)] b by (simp add: wire_simps)
  then show ?thesis by (simp add: decode_def decode_v6_iff)
qed

lemma wire_v4_length: "wire_v4 data p \<Longrightarrow> even (length data) \<and> internet_checksum data = (0, 0)"
  by (auto simp: wire_v4_def length_concat_const [where w = 4])

lemma corrupted_v4:
  assumes "decode_v4 C data = Some (Inr p)" and "i < length data" and "x \<noteq> data ! i"
  shows "\<not> (\<exists>q. decode_v4 C (data[i := x]) = Some (Inr q))"
proof
  assume "\<exists>q. decode_v4 C (data[i := x]) = Some (Inr q)"
  then have "internet_checksum (data[i := x]) = (0, 0)"
    using wire_v4_length by (auto simp: decode_v4_iff)
  moreover have "internet_checksum data = (0, 0)"
    using assms(1) wire_v4_length by (auto simp: decode_v4_iff)
  ultimately show False
    using internet_checksum_update assms(2,3) by blast
qed

lemma corrupted_v6:
  assumes "decode_v6 C data s d = Some (Inr p)" and "i < length data" and "x \<noteq> data ! i"
  shows "\<not> (\<exists>q. decode_v6 C (data[i := x]) s d = Some (Inr q))"
proof
  let ?pre = "pseudo_v6 s d (length data) 112"
  assume "\<exists>q. decode_v6 C (data[i := x]) s d = Some (Inr q)"
  then have "internet_checksum (?pre @ data[i := x]) = (0, 0)"
    by (auto simp: decode_v6_iff wire_v6_def)
  then have "internet_checksum ((?pre @ data)[40 + i := x]) = (0, 0)"
    by (simp add: list_update_append)
  moreover have "internet_checksum (?pre @ data) = (0, 0)"
    using assms(1) by (auto simp: decode_v6_iff wire_v6_def)
  ultimately show False
    using internet_checksum_update [of "40 + i" "?pre @ data" x] assms(2,3) by (simp add: nth_append)
qed

end

section \<open>The shape of a decoded packet\<close>

lemma interval_of_fits: "interval_fits v (interval_of v a b)"
proof (cases v)
  case V2
  have "unat (ucast b * 100 :: u16) = unat b * 100"
    using unat_lt_256 [of b] by (simp add: unat_word_ariths unsigned_ucast_eq take_bit_eq_mod)
  with V2 show ?thesis using unat_lt_256 [of b] by simp
next
  case V3
  have "(4096 :: nat) = Suc 4095" by simp
  with V3 show ?thesis by (simp add: and_4095 flip: less_Suc_eq_le)
qed

lemma wire_v4_shape:
  assumes "wire_v4 data p"
  obtains addrs where "addresses p = AddrsV4 addrs" "length addrs \<le> 16"
    "interval_fits (version p) (adver_int_cs p)"
  using assms interval_of_fits unfolding wire_v4_def by metis

lemma wire_v6_shape:
  assumes "wire_v6 data src dst p"
  obtains addrs where "addresses p = AddrsV6 addrs" "length addrs \<le> 16" "version p = V3"
    "interval_fits V3 (adver_int_cs p)"
  using assms interval_of_fits unfolding wire_v6_def by metis

section \<open>Properties of the codec\<close>

text \<open>A version 3 advertisement without addresses, and its eight bytes.\<close>

definition example_bytes :: bytes where
  "example_bytes = [0x31, 51, 100, 0, 0, 100, 0x6a, 0x68]"

definition example_bytes_packet :: vrrp_packet where
  "example_bytes_packet =
     \<lparr>version = V3, vrid = 51, priority = 100, adver_int_cs = 100, addresses = AddrsV4 []\<rparr>"

lemma example_bytes_wire: "wire_v4 example_bytes example_bytes_packet"
  unfolding example_bytes_def example_bytes_packet_def
  by (rule wire_v4I [where vt = "0x31" and ?i1.0 = "0" and ?i2.0 = "100" and ?c1.0 = "0x6a" and ?c2.0 = "0x68"
        and auth = "[]" and addrs = "[]"])
    (simp_all add: drop_bit_eq_div of_be16_def nat_of_be_def internet_checksum_zero fold16_closed)

text \<open>C11: The decoder returns on any bytes from the network, without an index out
  of range, and accepts a byte string as the packet p exactly when it is a message of p. Over
  IPv4 that is version 2 or 3, at most sixteen addresses, a length that fits the address count
  and the version's trailer, and a checksum that verifies. Over IPv6 it is version 3 alone, the
  checksum covers the pseudo-header of source and destination as well, and an IPv4 destination
  is refused.\<close>

theorem decode_grammar:
  assumes "wire_crates C"
  shows "decode C data src dst \<noteq> None
    \<and> (decode C data src dst = Some (Inr p) \<longleftrightarrow>
        (case src of
           IpV4 _ \<Rightarrow> wire_v4 data p
         | IpV6 s \<Rightarrow> (\<exists>d. dst = IpV6 d \<and> wire_v6 data s d p)))"
  using wire_crates.decode_total [OF assms] wire_crates.decode_v4_iff [OF assms]
    wire_crates.decode_v6_iff [OF assms]
  by (auto simp: decode_def split: ip_addr.splits)

theorem decode_grammar_witness:
  "decode list_crates example_bytes (IpV4 1) (IpV4 2) = Some (Inr example_bytes_packet)
   \<and> decode list_crates example_bytes (IpV6 1) (IpV4 2) \<noteq> Some (Inr example_bytes_packet)"
  using decode_grammar [OF lc.wire_crates_axioms, of example_bytes "IpV4 1" "IpV4 2"]
    decode_grammar [OF lc.wire_crates_axioms, of example_bytes "IpV6 1" "IpV4 2"] example_bytes_wire
  by simp

text \<open>C12: Whatever comes off the wire, a decoded packet is well formed: at most
  sixteen addresses, of the family it arrived over, version 3 when that is IPv6, and an interval
  its version can carry. So nothing is lost in it: encoded again it decodes to itself.\<close>

theorem decoded_packet:
  assumes "wire_crates C" and "decode C data src dst = Some (Inr p)"
  shows "addresses_len (addresses p) \<le> 16 \<and> interval_fits (version p) (adver_int_cs p)
    \<and> (case src of
         IpV4 _ \<Rightarrow> \<exists>addrs. addresses p = AddrsV4 addrs
       | IpV6 _ \<Rightarrow> version p = V3 \<and> (\<exists>addrs. addresses p = AddrsV6 addrs))
    \<and> (\<exists>b. encode C p src = Some b \<and> decode C b src (IpV6 VRRP_V6_MCAST_ADDR) = Some (Inr p))"
proof (cases src)
  case (IpV4 s)
  with assms have "wire_v4 data p"
    by (simp add: decode_def wire_crates.decode_v4_iff [OF assms(1)])
  then show ?thesis
    using wire_crates.encode_total [OF assms(1), of p src] wire_crates.decode_encode_v4 [OF assms(1)] IpV4
    by (auto elim!: wire_v4_shape)
next
  case (IpV6 s)
  with assms obtain d where "wire_v6 data s d p"
    by (auto simp: decode_def wire_crates.decode_v6_iff [OF assms(1)] split: ip_addr.splits)
  then show ?thesis
    using wire_crates.encode_total [OF assms(1), of p src] wire_crates.decode_encode_v6 [OF assms(1)] IpV6
    by (auto elim!: wire_v6_shape)
qed

theorem decoded_packet_witness:
  "decode list_crates example_bytes (IpV4 1) (IpV4 2) = Some (Inr example_bytes_packet)
   \<and> (\<exists>b. encode list_crates example_bytes_packet (IpV4 1) = Some b
        \<and> decode list_crates b (IpV4 1) (IpV6 VRRP_V6_MCAST_ADDR) = Some (Inr example_bytes_packet))"
proof -
  have "decode list_crates example_bytes (IpV4 1) (IpV4 2) = Some (Inr example_bytes_packet)"
    using example_bytes_wire by (simp add: decode_def lc.decode_v4_iff)
  with decoded_packet [OF lc.wire_crates_axioms this] show ?thesis by blast
qed

text \<open>The error of a refused IPv4 packet tells the first check that fails: no
  bytes, then the version nibble, then the lengths, then the checksum.\<close>

theorem decode_errors:
  assumes "wire_crates C"
  shows "decode C data (IpV4 src) dst = Some (Inl e) \<longleftrightarrow>
    (if data = [] then e = Malformed
     else if drop_bit 4 (data ! 0) \<noteq> 2 \<and> drop_bit 4 (data ! 0) \<noteq> 3
     then e = UnsupportedVersion (drop_bit 4 (data ! 0))
     else if length data < 8 \<or> unat (data ! 3) > 16
       \<or> length data \<noteq> 8 + (if drop_bit 4 (data ! 0) = 2 then 8 else 0) + unat (data ! 3) * 4
     then e = Malformed
     else internet_checksum data \<noteq> (0, 0) \<and> e = BadChecksum)"
  using wire_crates.decode_v4_ref [OF assms]
  by (auto simp: decode_def ref_decode_v4_def version_try_from_def Let_def split: if_splits)

theorem decode_errors_witness:
  "decode list_crates [0x41] (IpV4 0) (IpV4 0) = Some (Inl (UnsupportedVersion 4))"
  using decode_errors [OF lc.wire_crates_axioms, of "[0x41]" 0 "IpV4 0" "UnsupportedVersion 4"] by simp

text \<open>C13: The encoder returns on every packet, and what it writes a receiver decodes to
  the same packet, for up to sixteen addresses and an interval the version can carry: over IPv4
  whatever the addresses of the datagram, over IPv6 for version 3 when the receiver sees the
  sender's source address and the VRRP multicast group as destination.\<close>

theorem codec_roundtrip:
  assumes "wire_crates C" and "addresses_len (addresses p) \<le> 16"
    and "interval_fits (version p) (adver_int_cs p)"
  shows "\<exists>b. encode C p src = Some b \<and>
     (case addresses p of
        AddrsV4 _ \<Rightarrow> decode C b (IpV4 s4) dst = Some (Inr p)
      | AddrsV6 _ \<Rightarrow> version p = V3 \<and> src = IpV6 s6 \<longrightarrow>
          decode C b src (IpV6 VRRP_V6_MCAST_ADDR) = Some (Inr p))"
proof -
  obtain b where b: "encode C p src = Some b" using wire_crates.encode_total [OF assms(1)] by blast
  show ?thesis
  proof (cases "addresses p")
    case (AddrsV4 addrs)
    with assms b wire_crates.decode_encode_v4 [OF assms(1)] show ?thesis by simp
  next
    case (AddrsV6 addrs)
    with assms b wire_crates.decode_encode_v6 [OF assms(1)] show ?thesis by auto
  qed
qed

theorem codec_roundtrip_witness:
  "(\<exists>b. encode list_crates \<lparr>version = V2, vrid = 51, priority = 100, adver_int_cs = 100,
          addresses = AddrsV4 [0x0a000001]\<rparr> (IpV4 1) = Some b
     \<and> decode list_crates b (IpV4 1) (IpV4 2) = Some (Inr \<lparr>version = V2, vrid = 51, priority = 100,
          adver_int_cs = 100, addresses = AddrsV4 [0x0a000001]\<rparr>))
   \<and> (\<exists>b. encode list_crates \<lparr>version = V3, vrid = 51, priority = 100, adver_int_cs = 4000,
          addresses = AddrsV6 [5]\<rparr> (IpV6 1) = Some b
     \<and> decode list_crates b (IpV6 1) (IpV6 VRRP_V6_MCAST_ADDR) = Some (Inr \<lparr>version = V3, vrid = 51,
          priority = 100, adver_int_cs = 4000, addresses = AddrsV6 [5]\<rparr>))"
  using codec_roundtrip [OF lc.wire_crates_axioms, of "\<lparr>version = V2, vrid = 51, priority = 100,
      adver_int_cs = 100, addresses = AddrsV4 [0x0a000001]\<rparr>" "IpV4 1" 1 "IpV4 2" 0]
    codec_roundtrip [OF lc.wire_crates_axioms, of "\<lparr>version = V3, vrid = 51, priority = 100,
      adver_int_cs = 4000, addresses = AddrsV6 [5]\<rparr>" "IpV6 1" 1 "IpV4 2" 1]
  by simp

text \<open>C32: A decodable packet in which any one byte was changed is not decodable, over
  IPv4 as over IPv6.\<close>

theorem corruption_detected:
  assumes "wire_crates C" and "decode C data src dst = Some (Inr p)"
    and "i < length data" and "x \<noteq> data ! i"
  shows "decode C (data[i := x]) src dst \<noteq> Some (Inr q)"
  using wire_crates.corrupted_v4 [OF assms(1) _ assms(3,4)]
    wire_crates.corrupted_v6 [OF assms(1) _ assms(3,4)] assms(2)
  by (auto simp: decode_def split: ip_addr.splits)

theorem corruption_detected_witness:
  "decode list_crates (example_bytes[2 := 255]) (IpV4 0) (IpV4 0)
     \<noteq> Some (Inr (example_bytes_packet\<lparr>priority := 255\<rparr>))"
proof (rule corruption_detected [OF lc.wire_crates_axioms])
  show "decode list_crates example_bytes (IpV4 0) (IpV4 0) = Some (Inr example_bytes_packet)"
    using example_bytes_wire by (simp add: decode_def lc.decode_v4_iff)
qed (simp_all add: example_bytes_def)

text \<open>Every encoded message carries a checksum that verifies: over the message
  for IPv4, over the pseudo-header and the message for IPv6.\<close>

theorem encoder_checksum:
  assumes "wire_crates C" and "encode C p (IpV6 s) = Some b"
  shows "case addresses p of
      AddrsV4 addrs \<Rightarrow> internet_checksum b = (0, 0)
        \<and> length b = 8 + length addrs * 4 + (if version p = V2 then 8 else 0)
    | AddrsV6 addrs \<Rightarrow> internet_checksum (pseudo_v6 s VRRP_V6_MCAST_ADDR (length b) 112 @ b) = (0, 0)
        \<and> length b = 8 + length addrs * 16"
proof (cases "addresses p")
  case (AddrsV4 addrs)
  with assms(2) wire_crates.encode_v4_layout [OF assms(1)] show ?thesis
    by (cases "version p") (auto simp: encode_def length_msg intro: msg_v4_checksum)
next
  case (AddrsV6 addrs)
  let ?pre = "pseudo_v6 s VRRP_V6_MCAST_ADDR (8 + length addrs * 16) 112"
  from AddrsV6 assms(2) wire_crates.encode_v6_layout [OF assms(1)]
  have "b = msg_v6 p addrs (internet_checksum (?pre @ msg_v6 p addrs (0, 0)))"
    by (simp add: encode_def)
  then show ?thesis
    using AddrsV6 msg_v6_checksum [of ?pre] by (simp add: length_msg)
qed

theorem encoder_checksum_witness:
  "\<exists>b. encode list_crates \<lparr>version = V3, vrid = 51, priority = 100, adver_int_cs = 100,
          addresses = AddrsV6 [5]\<rparr> (IpV6 1) = Some b
     \<and> internet_checksum (pseudo_v6 1 VRRP_V6_MCAST_ADDR (length b) 112 @ b) = (0, 0)"
proof -
  let ?p = "\<lparr>version = V3, vrid = 51, priority = 100, adver_int_cs = 100, addresses = AddrsV6 [5]\<rparr>"
  obtain b where b: "encode list_crates ?p (IpV6 1) = Some b" using lc.encode_total by blast
  from encoder_checksum [OF lc.wire_crates_axioms b] b show ?thesis by auto
qed

end
