(* ===== verification/Neighbor.thy ===== *)
theory Neighbor
  imports Packet
begin

text \<open>
  Neighbour resolution messages of \<open>src/src/packet.rs\<close>: the Ethernet/ARP frame, which is
  handed to the socket as the memory of a \<open>repr(C)\<close> struct, the ARP decoder, and the ICMPv6
  Neighbor Advertisement and Solicitation.
\<close>

section \<open>ARP\<close>

record ethernet_frame =
  eth_dst_mac :: mac
  eth_src_mac :: mac
  eth_ethertype :: u16

record arp_packet =
  hw_type :: u16
  proto_type :: u16
  hw_length :: u8
  proto_length :: u8
  operation :: u16
  sender_hw_address :: mac
  sender_proto_address :: bytes
  target_hw_address :: mac
  target_proto_address :: bytes

record arp_frame =
  dst_mac :: mac
  src_mac :: mac
  ethertype :: u16
  hardware_type :: u16
  protocol_type :: u16
  hw_addr_len :: u8
  proto_addr_len :: u8
  opcode :: u16
  sender_hw_addr :: mac
  sender_proto_addr :: bytes
  target_hw_addr :: mac
  target_proto_addr :: bytes

text \<open>
  \<open>u16::to_be\<close> swaps the two bytes on a little-endian host and is the identity on a
  big-endian one; \<open>mem16\<close> is how the host stores a \<open>u16\<close>. The flag says whether the host is
  big-endian.
\<close>

definition to_be :: "bool \<Rightarrow> u16 \<Rightarrow> u16" where
  "to_be big_endian w = (if big_endian then w else of_be16 (rev (be16 w)))"

definition mem16 :: "bool \<Rightarrow> u16 \<Rightarrow> bytes" where
  "mem16 big_endian w = (if big_endian then be16 w else rev (be16 w))"

definition arp_frame_new :: "bool \<Rightarrow> ethernet_frame \<Rightarrow> arp_packet \<Rightarrow> arp_frame" where
  "arp_frame_new big_endian eth_pkt arp_pkt = \<lparr>
     dst_mac = eth_dst_mac eth_pkt,
     src_mac = eth_src_mac eth_pkt,
     ethertype = to_be big_endian (eth_ethertype eth_pkt),
     hardware_type = to_be big_endian (hw_type arp_pkt),
     protocol_type = to_be big_endian (proto_type arp_pkt),
     hw_addr_len = hw_length arp_pkt,
     proto_addr_len = proto_length arp_pkt,
     opcode = to_be big_endian (operation arp_pkt),
     sender_hw_addr = sender_hw_address arp_pkt,
     sender_proto_addr = sender_proto_address arp_pkt,
     target_hw_addr = target_hw_address arp_pkt,
     target_proto_addr = target_proto_address arp_pkt\<rparr>"

text \<open>
  The \<open>size_of_val(&arp_frame)\<close> bytes passed to \<open>sendto\<close>. Every \<open>u16\<close> of the struct sits at
  an even offset (12, 14, 16, 20) and the size 42 is even, so \<open>repr(C)\<close> adds no padding.
\<close>

definition arp_frame_mem :: "bool \<Rightarrow> arp_frame \<Rightarrow> bytes" where
  "arp_frame_mem big_endian f =
     dst_mac f @ src_mac f @ mem16 big_endian (ethertype f)
     @ mem16 big_endian (hardware_type f) @ mem16 big_endian (protocol_type f)
     @ [hw_addr_len f, proto_addr_len f] @ mem16 big_endian (opcode f)
     @ sender_hw_addr f @ sender_proto_addr f @ target_hw_addr f @ target_proto_addr f"

definition arp_decode :: "crates \<Rightarrow> bytes \<Rightarrow> arp_packet option option" where
  "arp_decode C data =
     (if length data \<noteq> 28 then Some None
      else do {
        (hw_type, buf) \<leftarrow> get_u16 C data;
        (proto_type, buf) \<leftarrow> get_u16 C buf;
        (hw_length, buf) \<leftarrow> get_u8 C buf;
        (proto_length, buf) \<leftarrow> get_u8 C buf;
        (operation, buf) \<leftarrow> get_u16 C buf;
        (sender_hw_address, buf) \<leftarrow> take_n (get_u8 C) 6 buf;
        (sender_proto_address, buf) \<leftarrow> take_n (get_u8 C) 4 buf;
        (target_hw_address, buf) \<leftarrow> take_n (get_u8 C) 6 buf;
        (target_proto_address, buf) \<leftarrow> take_n (get_u8 C) 4 buf;
        Some (Some \<lparr>hw_type = hw_type, proto_type = proto_type, hw_length = hw_length,
          proto_length = proto_length, operation = operation,
          sender_hw_address = sender_hw_address, sender_proto_address = sender_proto_address,
          target_hw_address = target_hw_address, target_proto_address = target_proto_address\<rparr>)
      })"

text \<open>The arrays of an \<open>ArpPacket\<close> have their fixed sizes, and its bytes on the wire.\<close>

definition arp_sized :: "arp_packet \<Rightarrow> bool" where
  "arp_sized a \<longleftrightarrow> length (sender_hw_address a) = 6 \<and> length (sender_proto_address a) = 4
     \<and> length (target_hw_address a) = 6 \<and> length (target_proto_address a) = 4"

definition arp_bytes :: "arp_packet \<Rightarrow> bytes" where
  "arp_bytes a = be16 (hw_type a) @ be16 (proto_type a) @ [hw_length a, proto_length a]
     @ be16 (operation a) @ sender_hw_address a @ sender_proto_address a
     @ target_hw_address a @ target_proto_address a"

lemma mem16_to_be [wire_simps]: "mem16 big_endian (to_be big_endian w) = be16 w"
  by (simp add: mem16_def to_be_def be_of_be)

lemma arp_frame_wire [wire_simps]:
  "arp_frame_mem big_endian (arp_frame_new big_endian eth arp) =
   eth_dst_mac eth @ eth_src_mac eth @ be16 (eth_ethertype eth) @ arp_bytes arp"
  by (simp add: arp_frame_mem_def arp_frame_new_def arp_bytes_def wire_simps)

lemma length_arp_bytes: "arp_sized a \<Longrightarrow> length (arp_bytes a) = 28"
  by (simp add: arp_sized_def arp_bytes_def)

lemma split_arrays:
  assumes "length r = 20"
  shows "r = take 6 r @ take 4 (drop 6 r) @ take 6 (drop 10 r) @ take 4 (drop 16 r)"
proof -
  have "take 6 (drop 10 r) @ drop 16 r = drop 10 r"
    using append_take_drop_id [of 6 "drop 10 r"] by simp
  moreover have "take 4 (drop 6 r) @ drop 10 r = drop 6 r"
    using append_take_drop_id [of 4 "drop 6 r"] by simp
  ultimately show ?thesis using assms by simp
qed

context wire_crates
begin

lemma take_n_u8: "n \<le> length b \<Longrightarrow> take_n (get_u8 C) n b = Some (take n b, drop n b)"
proof (induction n arbitrary: b)
  case 0
  then show ?case by simp
next
  case (Suc n)
  then show ?case by (cases b) (simp_all add: get_u8)
qed

lemma arp_decode_closed:
  "arp_decode C data = Some (if length data \<noteq> 28 then None else Some
     \<lparr>hw_type = of_be16 (take 2 data), proto_type = of_be16 (take 2 (drop 2 data)),
      hw_length = data ! 4, proto_length = data ! 5,
      operation = of_be16 (take 2 (drop 6 data)),
      sender_hw_address = take 6 (drop 8 data), sender_proto_address = take 4 (drop 14 data),
      target_hw_address = take 6 (drop 18 data), target_proto_address = take 4 (drop 24 data)\<rparr>)"
proof (cases "length data = 28")
  case False
  then show ?thesis by (simp add: arp_decode_def)
next
  case True
  then have "8 \<le> length data" by simp
  then obtain a b c d e f g h rest where data: "data = a # b # c # d # e # f # g # h # rest"
    by (rule list_8_exhaust)
  with True show ?thesis
    by (simp add: arp_decode_def data get_u16 get_u8 take_n_u8)
qed

lemma arp_decode_bytes: "arp_sized a \<Longrightarrow> arp_decode C (arp_bytes a) = Some (Some a)"
  unfolding arp_decode_closed
  by (simp add: length_arp_bytes) (simp add: arp_bytes_def arp_sized_def nth_append)

lemma arp_decode_iff:
  "arp_decode C data = Some (Some a) \<longleftrightarrow> arp_sized a \<and> data = arp_bytes a"
proof
  assume dec: "arp_decode C data = Some (Some a)"
  then have len: "length data = 28" by (simp add: arp_decode_closed split: if_splits)
  then have "8 \<le> length data" by simp
  then obtain a0 b c d e f g h rest where data: "data = a0 # b # c # d # e # f # g # h # rest"
    by (rule list_8_exhaust)
  then have "rest = take 6 rest @ take 4 (drop 6 rest) @ take 6 (drop 10 rest) @ take 4 (drop 16 rest)"
    using len by (intro split_arrays) simp
  with dec len show "arp_sized a \<and> data = arp_bytes a"
    by (auto simp: arp_decode_closed arp_sized_def arp_bytes_def be_of_be data)
next
  assume "arp_sized a \<and> data = arp_bytes a"
  then show "arp_decode C data = Some (Some a)" by (simp add: arp_decode_bytes)
qed

end

section \<open>Neighbor discovery\<close>

record neighbor_advertisement =
  na_target_address :: u128
  na_target_link_addr :: mac
  na_override_flag :: bool

definition NA_TYPE :: u8 where "NA_TYPE = 136"
definition OPT_TARGET_LINK_ADDR :: u8 where "OPT_TARGET_LINK_ADDR = 2"
definition NS_TYPE :: u8 where "NS_TYPE = 135"

definition na_encode :: "crates \<Rightarrow> neighbor_advertisement \<Rightarrow> u128 \<Rightarrow> u128 \<Rightarrow> bytes option" where
  "na_encode C na src_ip dst_ip =
     (let msg = put_u8 C [] NA_TYPE;
          msg = put_u8 C msg 0;
          msg = put_u16 C msg 0;
          flags = (if na_override_flag na then 0b00100000 else 0);
          msg = put_u8 C msg flags;
          msg = put_u8 C msg 0;
          msg = put_u8 C msg 0;
          msg = put_u8 C msg 0;
          msg = put_slice C msg (octets6 (na_target_address na));
          msg = put_u8 C msg OPT_TARGET_LINK_ADDR;
          msg = put_u8 C msg 1;
          msg = put_slice C msg (na_target_link_addr na)
      in write_slice2 2
           (checksum C [octets6 src_ip, octets6 dst_ip, be32 (word_of_nat (length msg)),
                        [0, 0, 0, ICMPV6_PROTO_NUM], msg]) msg)"

text \<open>
  \<open>NdpNeighborSolicitation::decode\<close>: the reads \<open>data[0]\<close> and \<open>data[8..24]\<close> are in range
  behind the length check.
\<close>

definition ns_decode :: "bytes \<Rightarrow> u128 option" where
  "ns_decode data =
     (if length data < 24 \<or> data ! 0 \<noteq> NS_TYPE then None
      else Some (of_be128 (take 16 (drop 8 data))))"

text \<open>The advertisement with checksum bytes \<open>c\<close>.\<close>

definition na_msg :: "neighbor_advertisement \<Rightarrow> u8 \<times> u8 \<Rightarrow> bytes" where
  "na_msg na c =
     [136, 0] @ fst c # snd c # [if na_override_flag na then 32 else 0, 0, 0, 0]
     @ octets6 (na_target_address na) @ [2, 1] @ na_target_link_addr na"

lemma length_na_msg: "length (na_target_link_addr na) = 6 \<Longrightarrow> length (na_msg na c) = 32"
  by (simp add: na_msg_def)

lemma na_msg_patch: "write_slice2 2 c (na_msg na c') = Some (na_msg na c)"
  unfolding na_msg_def by (rule write_slice2_append) simp

lemma na_msg_checksum:
  "even (length pre) \<Longrightarrow> c = internet_checksum (pre @ na_msg na (0, 0)) \<Longrightarrow>
   internet_checksum (pre @ na_msg na c) = (0, 0)"
  unfolding na_msg_def
  using checksum_fills_in [of "pre @ [136, 0]" c] by simp

lemma ns_decode_iff:
  "ns_decode data = Some t \<longleftrightarrow>
   24 \<le> length data \<and> data ! 0 = 135 \<and> take 16 (drop 8 data) = octets6 t"
  by (auto simp: ns_decode_def NS_TYPE_def be_of_be)

context wire_crates
begin

lemma na_encode_layout:
  assumes "length (na_target_link_addr na) = 6"
  shows "na_encode C na src dst =
         Some (na_msg na (internet_checksum (pseudo_v6 src dst 32 58 @ na_msg na (0, 0))))"
proof -
  have "na_encode C na src dst =
    (let msg = na_msg na (0, 0) in
     write_slice2 2 (checksum C [octets6 src, octets6 dst,
       be32 (word_of_nat (length msg)), [0, 0, 0, 58], msg]) msg)"
    by (simp add: na_encode_def na_msg_def put_simps NA_TYPE_def OPT_TARGET_LINK_ADDR_def
        ICMPV6_PROTO_NUM_def be_zero)
  then show ?thesis
    by (simp add: Let_def checksum length_na_msg [OF assms] na_msg_patch pseudo_v6_def)
qed

lemma na_encode_verifies:
  assumes "length (na_target_link_addr na) = 6" and "na_encode C na src dst = Some b"
  shows "length b = 32 \<and> internet_checksum (pseudo_v6 src dst 32 58 @ b) = (0, 0)"
  using assms by (auto simp: na_encode_layout length_na_msg na_msg_checksum)

text \<open>Writing the checksum panics only if the message is shorter than its fixed header.\<close>

lemma na_encode_total: "\<exists>b. na_encode C na src dst = Some b"
  by (simp add: na_encode_def put_simps write_slice2_def Let_def)

end

section \<open>Properties of the neighbour messages\<close>

text \<open>An ARP payload decodes to a packet exactly when it is that packet's 28
  bytes, and decoding never panics.\<close>

theorem arp_decode_exact:
  assumes "wire_crates C"
  shows "(arp_decode C data = Some (Some a) \<longleftrightarrow> arp_sized a \<and> data = arp_bytes a)
       \<and> (arp_decode C data = Some None \<longleftrightarrow> length data \<noteq> 28)"
  using wire_crates.arp_decode_iff [OF assms] wire_crates.arp_decode_closed [OF assms] by auto

theorem arp_decode_exact_witness:
  "arp_decode list_crates [1] = Some None"
  using arp_decode_exact [OF lc.wire_crates_axioms, of "[1]"] by simp

text \<open>C33: The memory handed to the socket for an ARP frame is the standard wire format, on
  little-endian and on big-endian hosts, and the part behind the Ethernet header decodes to the
  ARP packet it was built from. An encoded Neighbor Advertisement is 32 bytes of type 136 with the
  override flag as asked, the target address and a target link-layer option, and its ICMPv6
  checksum verifies over the pseudo-header.\<close>

theorem neighbor_wire:
  assumes "wire_crates C" and "length (eth_dst_mac eth) = 6" and "length (eth_src_mac eth) = 6"
    and "arp_sized arp" and "length (na_target_link_addr na) = 6"
  shows "arp_frame_mem be (arp_frame_new be eth arp) =
           eth_dst_mac eth @ eth_src_mac eth @ be16 (eth_ethertype eth) @ arp_bytes arp
    \<and> arp_decode C (drop 14 (arp_frame_mem be (arp_frame_new be eth arp))) = Some (Some arp)
    \<and> (\<exists>b. na_encode C na src dst = Some b \<and> length b = 32
         \<and> internet_checksum (pseudo_v6 src dst 32 58 @ b) = (0, 0)
         \<and> take 2 b = [136, 0] \<and> drop 4 b = [if na_override_flag na then 32 else 0, 0, 0, 0]
             @ octets6 (na_target_address na) @ [2, 1] @ na_target_link_addr na)"
proof (intro conjI)
  show "arp_frame_mem be (arp_frame_new be eth arp) =
           eth_dst_mac eth @ eth_src_mac eth @ be16 (eth_ethertype eth) @ arp_bytes arp"
    and "arp_decode C (drop 14 (arp_frame_mem be (arp_frame_new be eth arp))) = Some (Some arp)"
    using assms wire_crates.arp_decode_bytes [OF assms(1,4)] by (simp_all add: arp_frame_wire)
  note l = wire_crates.na_encode_layout [OF assms(1,5), of src dst]
  show "\<exists>b. na_encode C na src dst = Some b \<and> length b = 32
         \<and> internet_checksum (pseudo_v6 src dst 32 58 @ b) = (0, 0)
         \<and> take 2 b = [136, 0] \<and> drop 4 b = [if na_override_flag na then 32 else 0, 0, 0, 0]
             @ octets6 (na_target_address na) @ [2, 1] @ na_target_link_addr na"
    using wire_crates.na_encode_verifies [OF assms(1,5) l] l by (simp add: na_msg_def)
qed

theorem neighbor_wire_witness:
  "arp_decode list_crates (drop 14 (arp_frame_mem True (arp_frame_new True
      \<lparr>eth_dst_mac = replicate 6 0xff, eth_src_mac = replicate 6 2, eth_ethertype = 0x0806\<rparr>
      \<lparr>hw_type = 1, proto_type = 0x0800, hw_length = 6, proto_length = 4, operation = 1,
       sender_hw_address = replicate 6 2, sender_proto_address = replicate 4 1,
       target_hw_address = replicate 6 0, target_proto_address = replicate 4 9\<rparr>))) =
   Some (Some \<lparr>hw_type = 1, proto_type = 0x0800, hw_length = 6, proto_length = 4, operation = 1,
       sender_hw_address = replicate 6 2, sender_proto_address = replicate 4 1,
       target_hw_address = replicate 6 0, target_proto_address = replicate 4 9\<rparr>)
   \<and> (\<exists>b. na_encode list_crates \<lparr>na_target_address = 5, na_target_link_addr = replicate 6 2,
          na_override_flag = True\<rparr> 5 ALL_NODES_V6_MCAST_ADDR = Some b \<and> length b = 32)"
  using neighbor_wire [OF lc.wire_crates_axioms, of "\<lparr>eth_dst_mac = replicate 6 0xff,
      eth_src_mac = replicate 6 2, eth_ethertype = 0x0806\<rparr>" "\<lparr>hw_type = 1, proto_type = 0x0800,
      hw_length = 6, proto_length = 4, operation = 1, sender_hw_address = replicate 6 2,
      sender_proto_address = replicate 4 1, target_hw_address = replicate 6 0,
      target_proto_address = replicate 4 9\<rparr>" "\<lparr>na_target_address = 5,
      na_target_link_addr = replicate 6 2, na_override_flag = True\<rparr>" True 5 ALL_NODES_V6_MCAST_ADDR]
  by (auto simp: arp_sized_def)

end
