(* ===== verification/Machine.thy ===== *)
theory Machine
  imports Types Complex_Main "HOL-Library.Log_Nat"
begin

text \<open>
  The protocol state machine of \<open>src/src/state_machine.rs\<close>: its state, its timer and the
  three timer operations, over single-precision arithmetic and the monotonic clock.

  An \<open>f32\<close> is the rational number it denotes; every arithmetic operation of the code is
  followed by \<open>f32_round\<close>, rounding to 24 significant bits, ties to even (IEEE 754
  binary32, down to the subnormal step \<open>2 ^ - 149\<close>). Infinities and NaN do not occur: the
  values computed from two bytes stay below 1024, as \<open>timer_value\<close> records. An \<open>Instant\<close> is a
  number of nanoseconds.
\<close>

section \<open>Single precision\<close>

type_synonym f32 = rat
type_synonym instant = nat

definition round_half_even :: "rat \<Rightarrow> int" where
  "round_half_even x =
     (let f = \<lfloor>x\<rfloor>; d = x - of_int f
      in if d < 1/2 then f else if d > 1/2 then f + 1 else if even f then f else f + 1)"

text \<open>The exponent of the leading bit of a positive number.\<close>

definition ilog2 :: "rat \<Rightarrow> int" where
  "ilog2 x =
     (let (n, d) = quotient_of x; e = bitlen n - bitlen d
      in if 2 powi e \<le> x then e else e - 1)"

definition f32_round :: "rat \<Rightarrow> f32" where
  "f32_round x =
     (if x = 0 then 0
      else let e = max (ilog2 \<bar>x\<bar> - 23) (-149)
           in of_int (round_half_even (x / 2 powi e)) * 2 powi e)"

definition f32_add :: "f32 \<Rightarrow> f32 \<Rightarrow> f32" where "f32_add a b = f32_round (a + b)"
definition f32_sub :: "f32 \<Rightarrow> f32 \<Rightarrow> f32" where "f32_sub a b = f32_round (a - b)"
definition f32_mul :: "f32 \<Rightarrow> f32 \<Rightarrow> f32" where "f32_mul a b = f32_round (a * b)"
definition f32_div :: "f32 \<Rightarrow> f32 \<Rightarrow> f32" where "f32_div a b = f32_round (a / b)"

text \<open>\<open>u8 as f32\<close>.\<close>

definition f32_of_u8 :: "u8 \<Rightarrow> f32" where "f32_of_u8 b = f32_round (of_nat (unat b))"

lemma round_half_even_of_int [simp]: "round_half_even (of_int k) = k"
  by (simp add: round_half_even_def)

lemma ilog2_le:
  assumes "0 < x"
  shows "2 powi (ilog2 x) \<le> x"
proof -
  obtain n d where q: "quotient_of x = (n, d)" by (cases "quotient_of x")
  then have d: "0 < d" and x: "x = of_int n / of_int d"
    using quotient_of_denom_pos quotient_of_div by auto
  with assms have n: "0 < n" by (simp add: zero_less_divide_iff)
  define a b where "a = nat (bitlen n - 1)" and "b = nat (bitlen d)"
  have "1 \<le> bitlen n"
    using n by (simp add: bitlen_ge_iff_power)
  then have ab: "bitlen n - bitlen d - 1 = int a - int b"
    using bitlen_nonneg [of d] by (simp add: a_def b_def)
  have "2 ^ a \<le> n" and "d < 2 ^ b"
    using bitlen_bounds n d by (auto simp: a_def b_def)
  then have "(2 :: rat) ^ a \<le> of_int n" and "of_int d < (2 :: rat) ^ b"
    by (metis of_int_le_iff of_int_numeral of_int_power)
       (metis \<open>d < 2 ^ b\<close> of_int_less_iff of_int_numeral of_int_power)
  then have "(2 :: rat) ^ a / 2 ^ b \<le> of_int n / of_int d"
    using d n by (intro frac_le) auto
  then have "(2 :: rat) powi (bitlen n - bitlen d - 1) \<le> x"
    by (simp only: ab x) (simp add: power_int_diff)
  then show ?thesis
    by (simp add: ilog2_def q Let_def)
qed

text \<open>
  Multiples of \<open>1/256\<close> below \<open>2 ^ 16\<close> need at most 24 significant bits: rounding leaves
  them alone. Every number the timers compute is one.
\<close>

definition timer_value :: "rat \<Rightarrow> nat \<Rightarrow> bool" where
  "timer_value x k \<longleftrightarrow> x = of_nat k / 256 \<and> k < 2 ^ 24"

lemma timer_value_bounds: "timer_value x k \<Longrightarrow> 0 \<le> x \<and> x < 65536"
proof -
  assume "timer_value x k"
  then have x: "x = of_nat k / 256" and "k < 16777216" by (auto simp: timer_value_def)
  then have "of_nat k < (16777216 :: rat)" by (simp only: of_nat_less_numeral_iff)
  then show ?thesis by (simp add: x)
qed

lemma f32_round_exact:
  assumes "timer_value x k"
  shows "f32_round x = x"
proof (cases "x = 0")
  case True
  then show ?thesis by (simp add: f32_round_def)
next
  case False
  from assms have x: "x = of_nat k / 256" and k: "k < 2 ^ 24" by (auto simp: timer_value_def)
  with False have pos: "0 < x" by simp
  have "x < 2 ^ 16"
    using timer_value_bounds [OF assms] by simp
  have l: "ilog2 x < 16"
  proof (rule ccontr)
    assume "\<not> ilog2 x < 16"
    then have "(2 :: rat) powi 16 \<le> 2 powi (ilog2 x)"
      by (intro power_int_increasing) auto
    with ilog2_le [OF pos] \<open>x < 2 ^ 16\<close> show False by simp
  qed
  define e where "e = max (ilog2 \<bar>x\<bar> - 23) (-149)"
  have "e \<le> - 8" using l pos by (simp add: e_def)
  define j where "j = nat (- 8 - e)"
  have j: "e = - 8 - int j" using \<open>e \<le> - 8\<close> by (simp add: j_def)
  have "x / 2 powi e = of_int (int k * 2 ^ j)"
    by (simp add: x j power_int_diff power_int_minus field_simps)
  then have "round_half_even (x / 2 powi e) = int k * 2 ^ j"
    by (simp only: round_half_even_of_int)
  then have "f32_round x = of_int (int k * 2 ^ j) * 2 powi e"
    using False by (simp add: f32_round_def Let_def flip: e_def)
  also have "\<dots> = x"
    by (simp add: x j power_int_diff power_int_minus field_simps)
  finally show ?thesis .
qed

lemma f32_of_u8: "f32_of_u8 b = of_nat (unat b)"
proof -
  have "timer_value (of_nat (unat b)) (unat b * 256)"
    using unat_lt_256 [of b] by (simp add: timer_value_def)
  then show ?thesis by (simp add: f32_of_u8_def f32_round_exact)
qed

section \<open>Timers and the state machine\<close>

datatype timer_type = NullTimer | MasterDownTimer | AdverTimer

datatype state = Init | Backup | Master

datatype event = Startup | NullEvent | Shutdown | MasterDown

record timer =
  t_type :: timer_type
  remaining_time :: f32
  waiting_for :: "instant option"

record vr_machine =
  fsm_timer :: timer
  fsm_state :: state
  fsm_event :: event

definition default_timer :: timer where
  "default_timer = \<lparr>t_type = NullTimer, remaining_time = 0, waiting_for = None\<rparr>"

definition default_machine :: vr_machine where
  "default_machine = \<lparr>fsm_timer = default_timer, fsm_state = Init, fsm_event = Startup\<rparr>"

text \<open>
  \<open>Duration::from_secs_f32\<close> panics on a negative or too large number of seconds and rounds
  to whole nanoseconds.
\<close>

definition duration_ns :: "f32 \<Rightarrow> nat option" where
  "duration_ns secs =
     (if secs < 0 \<or> 2 ^ 64 \<le> secs then None
      else Some (nat (round_half_even (secs * 1000000000))))"

text \<open>The clock reading \<open>Instant::now()\<close> is the first argument of the setters.\<close>

definition set_advert_timer :: "instant \<Rightarrow> f32 \<Rightarrow> vr_machine \<Rightarrow> vr_machine option" where
  "set_advert_timer now duration m = do {
     d \<leftarrow> duration_ns duration;
     Some (m\<lparr>fsm_timer := \<lparr>t_type = AdverTimer, remaining_time = duration,
                             waiting_for = Some (now + d)\<rparr>\<rparr>)
   }"

definition set_master_down_timer :: "instant \<Rightarrow> f32 \<Rightarrow> vr_machine \<Rightarrow> vr_machine option" where
  "set_master_down_timer now duration m = do {
     d \<leftarrow> duration_ns duration;
     Some (m\<lparr>fsm_timer := \<lparr>t_type = MasterDownTimer, remaining_time = duration,
                             waiting_for = Some (now + d)\<rparr>\<rparr>)
   }"

definition disable_timer :: "vr_machine \<Rightarrow> vr_machine" where
  "disable_timer m =
     m\<lparr>fsm_timer := \<lparr>t_type = NullTimer, remaining_time = 0, waiting_for = None\<rparr>\<rparr>"

lemma duration_timer_value: "timer_value x k \<Longrightarrow> duration_ns x = Some (k * 3906250)"
proof -
  assume "timer_value x k"
  then have x: "x = of_nat k / 256" and k: "k < 2 ^ 24" by (auto simp: timer_value_def)
  have "0 \<le> x" "x < 2 ^ 64"
    using timer_value_bounds [OF \<open>timer_value x k\<close>] by simp_all
  moreover have "x * 1000000000 = of_int (int (k * 3906250))" by (simp add: x)
  ultimately show ?thesis
    by (simp only: duration_ns_def round_half_even_of_int nat_int) (simp add: not_less)
qed

text \<open>The setters as one-step rewrites, and what they leave alone.\<close>

lemma set_timer_simps [fsm_simps]:
  assumes "timer_value d k"
  shows "set_advert_timer now d m =
           Some (m\<lparr>fsm_timer := \<lparr>t_type = AdverTimer, remaining_time = d,
                                   waiting_for = Some (now + k * 3906250)\<rparr>\<rparr>)"
    and "set_master_down_timer now d m =
           Some (m\<lparr>fsm_timer := \<lparr>t_type = MasterDownTimer, remaining_time = d,
                                   waiting_for = Some (now + k * 3906250)\<rparr>\<rparr>)"
  using duration_timer_value [OF assms]
  by (simp_all add: set_advert_timer_def set_master_down_timer_def)

lemma set_timer_Some:
  "set_advert_timer now d m = Some m' \<Longrightarrow>
     t_type (fsm_timer m') = AdverTimer \<and> remaining_time (fsm_timer m') = d
     \<and> waiting_for (fsm_timer m') \<noteq> None \<and> fsm_state m' = fsm_state m"
  "set_master_down_timer now d m = Some m' \<Longrightarrow>
     t_type (fsm_timer m') = MasterDownTimer \<and> remaining_time (fsm_timer m') = d
     \<and> waiting_for (fsm_timer m') \<noteq> None \<and> fsm_state m' = fsm_state m"
  by (auto simp: set_advert_timer_def set_master_down_timer_def bind_eq_Some_conv)

lemma disable_timer_simps [simp, fsm_simps]:
  "t_type (fsm_timer (disable_timer m)) = NullTimer"
  "waiting_for (fsm_timer (disable_timer m)) = None"
  "fsm_state (disable_timer m) = fsm_state m"
  by (simp_all add: disable_timer_def)

text \<open>
  The timer that runs in each state: none in Init, the master-down timer in Backup, the
  advertisement timer in Master; a running timer has a deadline.
\<close>

fun timer_for :: "state \<Rightarrow> timer_type" where
  "timer_for Init = NullTimer"
| "timer_for Backup = MasterDownTimer"
| "timer_for Master = AdverTimer"

definition machine_ok :: "vr_machine \<Rightarrow> bool" where
  "machine_ok m \<longleftrightarrow> t_type (fsm_timer m) = timer_for (fsm_state m)
     \<and> (waiting_for (fsm_timer m) = None \<longleftrightarrow> fsm_state m = Init)"

lemma default_machine_ok: "machine_ok default_machine"
  by (simp add: machine_ok_def default_machine_def default_timer_def)

end
