(* ===== verification/Os.thy ===== *)
theory Os
  imports Neighbor Machine
begin

text \<open>
  The operating system as the program sees it. Every request that can change something
  outside the program, or that may fail, is an \<open>effect\<close>; a \<open>trace\<close> is the sequence of
  requests made so far. The answers come from an \<open>os\<close>, a parameter of every operation that
  talks to the system: each answer may depend on the whole history of requests, so nothing
  is assumed about when a request fails or how the set of interfaces evolves.

  Sockets are opened afresh for every message (\<open>SockNew\<close>), so a socket request belongs to
  the last \<open>SockNew\<close> before it.
\<close>

section \<open>What the system reports\<close>

text \<open>\<open>pnet::datalink::NetworkInterface\<close>, the fields the code reads.\<close>

record network_interface =
  if_name :: string
  if_mac :: "mac option"
  if_ips :: "ip_addr list"

text \<open>Netlink messages, the attributes the code looks at.\<close>

datatype link_info = KindMacVlan | OtherInfo

datatype link_attribute =
    LinkInfoAttr "link_info list"
  | LinkAddressAttr bytes
  | LinkParentAttr u32
  | OtherLinkAttr

record link_message =
  link_index :: u32
  link_attributes :: "link_attribute list"

datatype address_attribute = AddressAttr ip_addr | OtherAddressAttr

type_synonym address_message = "address_attribute list"

text \<open>The modes of a mac-vlan; the code only asks for \<open>MacVlanMode::Bridge\<close>.\<close>

datatype mac_vlan_mode = Bridge | OtherMode

section \<open>Requests\<close>

datatype sock_domain = DomainIPV4 | DomainIPV6 | DomainPACKET

datatype sock_addr =
    SaV4 u32
  | SaV6 u128
  | SaLL u16 u32  \<comment> \<open>\<open>sll_protocol\<close> as stored, \<open>sll_ifindex\<close>\<close>

datatype log_level = Error | Warn | Info | Debug | Trace

datatype effect =
    SockNew sock_domain int
  | SockBindDevice string
  | SockBind sock_addr
  | SockSetTtl nat
  | SockSetMulticastTtlV4 nat
  | SockSetUnicastHopsV6 nat
  | SockSetMulticastHopsV6 nat
  | SockSetBroadcast bool
  | SockJoinMulticastV4 u32 u32
  | SockJoinMulticastV6 u128 u32
  | SockSetNonblocking bool
  | AsyncFdNew
  | SockSendTo bytes sock_addr
  | IfNameToIndex string
  | NlConnect
  | LinkGetByName string
  | LinkAddMacVlan string u32 mac_vlan_mode bool bytes  \<comment> \<open>name, parent, mode, up, MAC\<close>
  | LinkDel u32
  | AddrAdd u32 ip_addr u8
  | AddrDel u32 ip_addr u8
  | AddrDump u32
  | FsWrite string string
  | LogDrop log_level string packet_error

type_synonym trace = "effect list"

record os =
  os_interfaces :: "trace \<Rightarrow> network_interface list"
  os_now :: "trace \<Rightarrow> instant"
  os_io :: "trace \<Rightarrow> effect \<Rightarrow> io_error option"
  os_if_nametoindex :: "trace \<Rightarrow> string \<Rightarrow> u32"
  os_last_error :: "trace \<Rightarrow> io_error"
  os_rtnl :: "trace \<Rightarrow> effect \<Rightarrow> rtnl_error option"
  os_link :: "trace \<Rightarrow> string \<Rightarrow> rtnl_error + link_message option"
  os_addrs :: "trace \<Rightarrow> u32 \<Rightarrow> (rtnl_error + address_message) list"
  os_big_endian :: bool

text \<open>One request, and a chain of requests each followed by the \<open>?\<close> operator.\<close>

definition perform :: "os \<Rightarrow> effect \<Rightarrow> trace \<Rightarrow> io_error option \<times> trace" where
  "perform os e tr = (os_io os tr e, tr @ [e])"

fun try_all :: "os \<Rightarrow> effect list \<Rightarrow> trace \<Rightarrow> io_error option \<times> trace" where
  "try_all os [] tr = (None, tr)"
| "try_all os (e # es) tr =
     (case perform os e tr of
        (Some err, tr) \<Rightarrow> (Some err, tr)
      | (None, tr) \<Rightarrow> try_all os es tr)"

lemma try_all_prefix:
  "try_all os es tr = (r, tr') \<Longrightarrow> \<exists>k. tr' = tr @ take k es \<and> (r = None \<longrightarrow> take k es = es)"
proof (induction es arbitrary: tr)
  case Nil
  then show ?case by simp
next
  case (Cons e es)
  show ?case
  proof (cases "os_io os tr e")
    case None
    with Cons.prems have "try_all os es (tr @ [e]) = (r, tr')" by (simp add: perform_def)
    from Cons.IH [OF this] obtain k where
      "tr' = tr @ e # take k es" "r = None \<longrightarrow> take k es = es" by auto
    then show ?thesis by (intro exI [of _ "Suc k"]) auto
  next
    case (Some err)
    with Cons.prems show ?thesis
      by (intro exI [of _ 1]) (auto simp: perform_def)
  qed
qed

text \<open>A chain stops at its first failure; it succeeds when every request of it does.\<close>

lemma try_all_None:
  "try_all os es tr = (None, tr') \<longleftrightarrow>
   tr' = tr @ es \<and> (\<forall>k < length es. os_io os (tr @ take k es) (es ! k) = None)"
proof (induction es arbitrary: tr)
  case Nil
  then show ?case by auto
next
  case (Cons e es)
  have "(\<forall>k < Suc (length es). os_io os (tr @ take k (e # es)) ((e # es) ! k) = None)
        \<longleftrightarrow> os_io os tr e = None
          \<and> (\<forall>k < length es. os_io os ((tr @ [e]) @ take k es) (es ! k) = None)"
    by (simp add: All_less_Suc2)
  then show ?case
    using Cons.IH [of "tr @ [e]"] by (auto simp: perform_def split: option.splits)
qed

lemma try_all_Some:
  "try_all os es tr = (Some err, tr') \<Longrightarrow>
   \<exists>k < length es. tr' = tr @ take (Suc k) es \<and> os_io os (tr @ take k es) (es ! k) = Some err"
proof (induction es arbitrary: tr)
  case Nil
  then show ?case by simp
next
  case (Cons e es)
  show ?case
  proof (cases "os_io os tr e")
    case None
    with Cons.prems have "try_all os es (tr @ [e]) = (Some err, tr')" by (simp add: perform_def)
    from Cons.IH [OF this] obtain k where "k < length es" "tr' = (tr @ [e]) @ take (Suc k) es"
      "os_io os ((tr @ [e]) @ take k es) (es ! k) = Some err" by blast
    then show ?thesis by (intro exI [of _ "Suc k"]) simp
  next
    case (Some err')
    with Cons.prems show ?thesis by (intro exI [of _ 0]) (simp add: perform_def)
  qed
qed

text \<open>A system in which no request fails.\<close>

definition no_failures :: "os \<Rightarrow> bool" where
  "no_failures os \<longleftrightarrow> (\<forall>tr e. os_io os tr e = None \<and> os_rtnl os tr e = None)"

lemma no_failures_simps [simp]:
  "no_failures os \<Longrightarrow> os_io os tr e = None"
  "no_failures os \<Longrightarrow> os_rtnl os tr e = None"
  by (simp_all add: no_failures_def)

lemma try_all_ok [simp]: "no_failures os \<Longrightarrow> try_all os es tr = (None, tr @ es)"
  by (induction es arbitrary: tr) (simp_all add: perform_def)

text \<open>
  A discipline of effects: a property of traces that holds of no effect at all and of two
  sequences in a row. \<open>extends\<close> says that an operation appended effects with the property;
  the rules compose it along the code.
\<close>

definition extends :: "(trace \<Rightarrow> bool) \<Rightarrow> trace \<Rightarrow> trace \<Rightarrow> bool" where
  "extends Q tr tr' \<longleftrightarrow> (\<exists>es. tr' = tr @ es \<and> Q es)"

lemma extends_from_nil [simp]: "extends Q [] tr \<longleftrightarrow> Q tr"
  by (simp add: extends_def)

lemma extends_mono: "extends Q tr tr' \<Longrightarrow> (\<And>es. Q es \<Longrightarrow> R es) \<Longrightarrow> extends R tr tr'"
  by (auto simp: extends_def)

locale effect_discipline =
  fixes Q :: "trace \<Rightarrow> bool"
  assumes nil: "Q []"
    and append: "Q xs \<Longrightarrow> Q ys \<Longrightarrow> Q (xs @ ys)"
begin

lemma ext_refl: "extends Q tr tr"
  using nil by (simp add: extends_def)

lemma ext_trans: "extends Q a b \<Longrightarrow> extends Q b c \<Longrightarrow> extends Q a c"
  using append by (fastforce simp: extends_def)

lemma ext_append: "Q es \<Longrightarrow> extends Q tr (tr @ es)"
  by (auto simp: extends_def)

lemma ext_snoc: "extends Q a b \<Longrightarrow> Q [e] \<Longrightarrow> extends Q a (b @ [e])"
  using ext_trans ext_append by blast

lemma ext_foldl: "(\<And>tr x. extends Q tr (f tr x)) \<Longrightarrow> extends Q tr (foldl f tr xs)"
  by (induction xs arbitrary: tr) (auto intro: ext_refl ext_trans)

lemma ext_try_all:
  "try_all os es tr = (r, tr') \<Longrightarrow> (\<And>k. Q (take k es)) \<Longrightarrow> extends Q tr tr'"
  using try_all_prefix [of os es tr r tr'] by (auto simp: extends_def)

end

text \<open>Every property of the single effects is a discipline.\<close>

interpretation each: effect_discipline "list_all q" for q
  by unfold_locales simp_all

text \<open>The severities of the \<open>log\<close> crate, most severe first.\<close>

instantiation log_level :: linorder
begin

fun log_rank :: "log_level \<Rightarrow> nat" where
  "log_rank Error = 1"
| "log_rank Warn = 2"
| "log_rank Info = 3"
| "log_rank Debug = 4"
| "log_rank Trace = 5"

definition less_eq_log_level :: "log_level \<Rightarrow> log_level \<Rightarrow> bool" where
  "less_eq_log_level a b \<longleftrightarrow> log_rank a \<le> log_rank b"

definition less_log_level :: "log_level \<Rightarrow> log_level \<Rightarrow> bool" where
  "less_log_level a b \<longleftrightarrow> log_rank a < log_rank b"

instance
proof
  fix a b :: log_level
  show "a \<le> b \<Longrightarrow> b \<le> a \<Longrightarrow> a = b"
    by (cases a; cases b) (simp_all add: less_eq_log_level_def)
qed (auto simp: less_eq_log_level_def less_log_level_def)

end

section \<open>A small system\<close>

text \<open>
  A host with the interface \<open>eth0\<close> and the mac-vlan that an instance with VRID 51 has on it,
  on which nothing fails: the concrete system of the examples. The clock shows \<open>now\<close>.
\<close>

definition example_mac :: mac where "example_mac = [0, 0, 0x5e, 0, 1, 51]"

definition example_interfaces :: "network_interface list" where
  "example_interfaces =
     [\<lparr>if_name = ''eth0'', if_mac = Some [2, 0, 0, 0, 0, 1], if_ips = [IpV4 (ipv4_new 10 0 0 2)]\<rparr>,
      \<lparr>if_name = ''fover4-51-9724'', if_mac = Some example_mac, if_ips = []\<rparr>]"

definition example_link :: link_message where
  "example_link = \<lparr>link_index = 7, link_attributes =
     [LinkInfoAttr [KindMacVlan], LinkAddressAttr example_mac, LinkParentAttr 2]\<rparr>"

definition example_os :: "instant \<Rightarrow> os" where
  "example_os now = \<lparr>
     os_interfaces = (\<lambda>_. example_interfaces),
     os_now = (\<lambda>_. now),
     os_io = (\<lambda>_ _. None),
     os_if_nametoindex = (\<lambda>_ _. 7),
     os_last_error = (\<lambda>_. OsError 19),
     os_rtnl = (\<lambda>_ _. None),
     os_link = (\<lambda>_ name.
       if name = ''eth0'' then Inr (Some \<lparr>link_index = 2, link_attributes = []\<rparr>)
       else if name = ''fover4-51-9724'' then Inr (Some example_link)
       else Inr None),
     os_addrs = (\<lambda>_ _. []),
     os_big_endian = False\<rparr>"

lemma example_os_no_failures [simp]: "no_failures (example_os now)"
  by (simp add: no_failures_def example_os_def)

text \<open>The same host before the mac-vlan is there: it appears with the request that adds it.\<close>

definition link_added :: "trace \<Rightarrow> bool" where
  "link_added tr = list_ex (\<lambda>e. case e of LinkAddMacVlan _ _ _ _ _ \<Rightarrow> True | _ \<Rightarrow> False) tr"

definition fresh_os :: "instant \<Rightarrow> os" where
  "fresh_os now = (example_os now)\<lparr>
     os_interfaces := (\<lambda>tr. if link_added tr then example_interfaces else [hd example_interfaces]),
     os_link := (\<lambda>tr name.
       if name = ''fover4-51-9724'' \<and> \<not> link_added tr then Inl (NetlinkError (Some (- 19)))
       else os_link (example_os now) tr name)\<rparr>"

lemma link_added_append [simp]: "link_added (xs @ ys) \<longleftrightarrow> link_added xs \<or> link_added ys"
  by (simp add: link_added_def)

lemma fresh_os_no_failures [simp]: "no_failures (fresh_os now)"
  by (simp add: no_failures_def fresh_os_def example_os_def)

end
