(* ===== verification/Network.thy ===== *)
theory Network
  imports Os
begin

text \<open>
  The sockets of \<open>src/src/network.rs\<close>: sending VRRP, ARP and neighbour messages, binding the
  listeners and receiving on them. A sender opens a socket, configures it and sends; the
  listeners' \<open>recv\<close> loops are functions of the sequence of events the socket delivers.
\<close>

definition VRRP_PROTOCOL_NUMBER :: int where "VRRP_PROTOCOL_NUMBER = 112"
definition ICMPV6_PROTOCOL_NUMBER :: int where "ICMPV6_PROTOCOL_NUMBER = 58"
definition VRRP_MCAST_ADDR :: u32 where "VRRP_MCAST_ADDR = ipv4_new 224 0 0 18"
definition ETH_P_ARP :: u16 where "ETH_P_ARP = 0x0806"

section \<open>Sending\<close>

definition if_index :: "os \<Rightarrow> string \<Rightarrow> trace \<Rightarrow> (io_error + u32) \<times> trace" where
  "if_index os ifname tr =
     (if CHR 0x00 \<in> set ifname then (Inl InvalidInput, tr)
      else let idx = os_if_nametoindex os tr ifname; tr = tr @ [IfNameToIndex ifname]
           in (if idx = 0 then Inl (os_last_error os tr) else Inr idx, tr))"

definition arp_link_addr :: "os \<Rightarrow> u32 \<Rightarrow> sock_addr" where
  "arp_link_addr os ifindex = SaLL (to_be (os_big_endian os) ETH_P_ARP) ifindex"

text \<open>
  The number of bytes sent, which every caller drops, is not modelled: the result is the
  error, if any.
\<close>

definition send_vrrp_packet_v4 ::
  "crates \<Rightarrow> os \<Rightarrow> string \<Rightarrow> u32 \<Rightarrow> vrrp_packet \<Rightarrow> trace \<Rightarrow> (io_error option \<times> trace) option" where
  "send_vrrp_packet_v4 C os ifname src_ip packet tr =
     (case try_all os
             [SockNew DomainIPV4 VRRP_PROTOCOL_NUMBER, SockBindDevice ifname,
              SockBind (SaV4 src_ip), SockSetTtl 255, SockSetMulticastTtlV4 255] tr of
        (Some err, tr) \<Rightarrow> Some (Some err, tr)
      | (None, tr) \<Rightarrow> do {
          buf \<leftarrow> encode C packet (IpV4 src_ip);
          Some (perform os (SockSendTo buf (SaV4 VRRP_MCAST_ADDR)) tr)
        })"

definition send_vrrp_packet_v6 ::
  "crates \<Rightarrow> os \<Rightarrow> string \<Rightarrow> u128 \<Rightarrow> vrrp_packet \<Rightarrow> trace \<Rightarrow> (io_error option \<times> trace) option" where
  "send_vrrp_packet_v6 C os ifname src_ip packet tr =
     (case try_all os
             [SockNew DomainIPV6 VRRP_PROTOCOL_NUMBER, SockBindDevice ifname,
              SockBind (SaV6 src_ip), SockSetUnicastHopsV6 255, SockSetMulticastHopsV6 255] tr of
        (Some err, tr) \<Rightarrow> Some (Some err, tr)
      | (None, tr) \<Rightarrow> do {
          buf \<leftarrow> encode C packet (IpV6 src_ip);
          Some (perform os (SockSendTo buf (SaV6 VRRP_V6_MCAST_ADDR)) tr)
        })"

definition send_packet_arp :: "os \<Rightarrow> string \<Rightarrow> arp_frame \<Rightarrow> trace \<Rightarrow> trace" where
  "send_packet_arp os ifname arp_frame tr =
     (case perform os (SockNew DomainPACKET (uint (to_be (os_big_endian os) ETH_P_ARP))) tr of
        (Some _, tr) \<Rightarrow> tr
      | (None, tr) \<Rightarrow>
          let tr = snd (perform os (SockBindDevice ifname) tr);
              tr = snd (perform os (SockSetBroadcast True) tr)
          in case if_index os ifname tr of
               (Inl _, tr) \<Rightarrow> tr
             | (Inr idx, tr) \<Rightarrow>
                 snd (perform os (SockSendTo (arp_frame_mem (os_big_endian os) arp_frame)
                                             (arp_link_addr os idx)) tr))"

definition send_neighbor_advertisement ::
  "crates \<Rightarrow> os \<Rightarrow> string \<Rightarrow> u128 \<Rightarrow> neighbor_advertisement \<Rightarrow> trace \<Rightarrow> trace option" where
  "send_neighbor_advertisement C os ifname target_addr na tr =
     (case perform os (SockNew DomainIPV6 ICMPV6_PROTOCOL_NUMBER) tr of
        (Some _, tr) \<Rightarrow> Some tr
      | (None, tr) \<Rightarrow>
          let tr = snd (perform os (SockBindDevice ifname) tr) in do {
            buf \<leftarrow> na_encode C na target_addr ALL_NODES_V6_MCAST_ADDR;
            Some (snd (perform os (SockSendTo buf (SaV6 ALL_NODES_V6_MCAST_ADDR)) tr))
          })"

section \<open>Listening\<close>

text \<open>
  What waiting on a non-blocking socket yields: readiness may fail, a ready read may turn
  out to block, fail, or deliver a datagram with the sender's address (for a packet socket,
  the packet type). A datagram longer than the buffer is cut off.
\<close>

datatype 'a recv_event =
    ReadableErr io_error
  | RecvErr io_error
  | WouldBlock
  | RecvOk bytes 'a

definition vrrp_listener_bind :: "os \<Rightarrow> string \<Rightarrow> ip_addr \<Rightarrow> trace \<Rightarrow> io_error option \<times> trace" where
  "vrrp_listener_bind os ifname addr tr =
     (let domain = (case addr of IpV4 _ \<Rightarrow> DomainIPV4 | IpV6 _ \<Rightarrow> DomainIPV6)
      in case try_all os [SockNew domain VRRP_PROTOCOL_NUMBER, SockBindDevice ifname] tr of
           (Some err, tr) \<Rightarrow> (Some err, tr)
         | (None, tr) \<Rightarrow>
             (case if_index os ifname tr of
                (Inl err, tr) \<Rightarrow> (Some err, tr)
              | (Inr ifindex, tr) \<Rightarrow>
                  try_all os
                    [case addr of
                       IpV4 _ \<Rightarrow> SockJoinMulticastV4 VRRP_MCAST_ADDR ifindex
                     | IpV6 _ \<Rightarrow> SockJoinMulticastV6 VRRP_V6_MCAST_ADDR ifindex,
                     SockSetNonblocking True, AsyncFdNew] tr))"

definition ndp_listener_bind :: "os \<Rightarrow> string \<Rightarrow> trace \<Rightarrow> io_error option \<times> trace" where
  "ndp_listener_bind os ifname tr =
     (case try_all os [SockNew DomainIPV6 ICMPV6_PROTOCOL_NUMBER, SockBindDevice ifname] tr of
        (Some err, tr) \<Rightarrow> (Some err, tr)
      | (None, tr) \<Rightarrow>
          (case if_index os ifname tr of
             (Inl err, tr) \<Rightarrow> (Some err, tr)
           | (Inr ifindex, tr) \<Rightarrow>
               try_all os [SockJoinMulticastV6 ALL_NODES_V6_MCAST_ADDR ifindex,
                           SockSetNonblocking True, AsyncFdNew] tr))"

definition arp_listener_bind :: "os \<Rightarrow> string \<Rightarrow> trace \<Rightarrow> io_error option \<times> trace" where
  "arp_listener_bind os ifname tr =
     (case perform os (SockNew DomainPACKET (uint (to_be (os_big_endian os) ETH_P_ARP))) tr of
        (Some err, tr) \<Rightarrow> (Some err, tr)
      | (None, tr) \<Rightarrow>
          (case if_index os ifname tr of
             (Inl err, tr) \<Rightarrow> (Some err, tr)
           | (Inr ifindex, tr) \<Rightarrow>
               try_all os [SockBind (arp_link_addr os ifindex),
                           SockSetNonblocking True, AsyncFdNew] tr))"

text \<open>
  The \<open>recv\<close> loops: the result with the events not yet consumed, or \<open>None\<close> while the loop
  is still waiting at the end of the given events.
\<close>

fun vrrp_listener_recv ::
  "ip_addr \<Rightarrow> ip_addr option recv_event list \<Rightarrow>
   ((io_error + bytes \<times> ip_addr) \<times> ip_addr option recv_event list) option" where
  "vrrp_listener_recv unspec_addr [] = None"
| "vrrp_listener_recv unspec_addr (ReadableErr err # evs) = Some (Inl err, evs)"
| "vrrp_listener_recv unspec_addr (RecvErr err # evs) = Some (Inl err, evs)"
| "vrrp_listener_recv unspec_addr (WouldBlock # evs) = vrrp_listener_recv unspec_addr evs"
| "vrrp_listener_recv unspec_addr (RecvOk data addr # evs) =
     Some (Inr (take 512 data, case addr of Some ip \<Rightarrow> ip | None \<Rightarrow> unspec_addr), evs)"

fun ndp_listener_recv ::
  "u128 option recv_event list \<Rightarrow> ((io_error + bytes \<times> u128) \<times> u128 option recv_event list) option" where
  "ndp_listener_recv [] = None"
| "ndp_listener_recv (ReadableErr err # evs) = Some (Inl err, evs)"
| "ndp_listener_recv (RecvErr err # evs) = Some (Inl err, evs)"
| "ndp_listener_recv (WouldBlock # evs) = ndp_listener_recv evs"
| "ndp_listener_recv (RecvOk data addr # evs) =
     Some (Inr (take 128 data, case addr of Some ip \<Rightarrow> ip | None \<Rightarrow> UNSPECIFIED6), evs)"

definition PACKET_OUTGOING :: u8 where "PACKET_OUTGOING = 4"

fun arp_listener_recv ::
  "u8 recv_event list \<Rightarrow> ((io_error + bytes) \<times> u8 recv_event list) option" where
  "arp_listener_recv [] = None"
| "arp_listener_recv (ReadableErr err # evs) = Some (Inl err, evs)"
| "arp_listener_recv (RecvErr err # evs) = Some (Inl err, evs)"
| "arp_listener_recv (WouldBlock # evs) = arp_listener_recv evs"
| "arp_listener_recv (RecvOk data pkttype # evs) =
     (if pkttype = PACKET_OUTGOING then arp_listener_recv evs
      else Some (Inr (take 128 data), evs))"

text \<open>
  What the three loops have in common: blocked reads are skipped, an error is returned, and
  a datagram is either delivered or skipped. \<open>recv\<close> then returns the answer to the first
  event that is not skipped.
\<close>

definition recv_answer :: "(bytes \<Rightarrow> 'a \<Rightarrow> 'b option) \<Rightarrow> 'a recv_event \<Rightarrow> (io_error + 'b) option" where
  "recv_answer deliver e =
     (case e of
        ReadableErr err \<Rightarrow> Some (Inl err)
      | RecvErr err \<Rightarrow> Some (Inl err)
      | WouldBlock \<Rightarrow> None
      | RecvOk data sender \<Rightarrow> map_option Inr (deliver data sender))"

locale listener =
  fixes recv :: "'a recv_event list \<Rightarrow> ((io_error + 'b) \<times> 'a recv_event list) option"
    and deliver :: "bytes \<Rightarrow> 'a \<Rightarrow> 'b option"
  assumes recv_Nil: "recv [] = None"
    and recv_Cons: "recv (e # evs) =
          (case recv_answer deliver e of Some r \<Rightarrow> Some (r, evs) | None \<Rightarrow> recv evs)"
begin

lemma recv_iff:
  "recv evs = Some (r, rest) \<longleftrightarrow>
   (\<exists>skipped e. evs = skipped @ e # rest \<and> recv_answer deliver e = Some r
      \<and> (\<forall>s \<in> set skipped. recv_answer deliver s = None))"
proof (induction evs)
  case Nil
  then show ?case by (simp add: recv_Nil)
next
  case (Cons e evs)
  show ?case
  proof (cases "recv_answer deliver e")
    case None
    then have "recv (e # evs) = recv evs" by (simp add: recv_Cons)
    moreover have "(\<exists>skipped e'. e # evs = skipped @ e' # rest \<and> recv_answer deliver e' = Some r
        \<and> (\<forall>s \<in> set skipped. recv_answer deliver s = None))
      \<longleftrightarrow> (\<exists>skipped e'. evs = skipped @ e' # rest \<and> recv_answer deliver e' = Some r
        \<and> (\<forall>s \<in> set skipped. recv_answer deliver s = None))" (is "?l \<longleftrightarrow> ?r")
    proof
      assume ?l
      then obtain skipped e' where *: "e # evs = skipped @ e' # rest" "recv_answer deliver e' = Some r"
        "\<forall>s \<in> set skipped. recv_answer deliver s = None" by blast
      with None obtain skipped' where "skipped = e # skipped'" by (cases skipped) auto
      with * show ?r by auto
    next
      assume ?r
      then obtain skipped e' where "evs = skipped @ e' # rest" "recv_answer deliver e' = Some r"
        "\<forall>s \<in> set skipped. recv_answer deliver s = None" by blast
      with None show ?l by (intro exI [of _ "e # skipped"] exI [of _ e']) simp
    qed
    ultimately show ?thesis using Cons.IH by simp
  next
    case (Some r')
    have "skipped = []" if "e # evs = skipped @ e' # rest" "\<forall>s \<in> set skipped. recv_answer deliver s = None"
      for skipped e'
      using that Some by (cases skipped) auto
    with Some show ?thesis by (fastforce simp: recv_Cons)
  qed
qed

lemma recv_returns: "recv evs \<noteq> None \<longleftrightarrow> (\<exists>e \<in> set evs. recv_answer deliver e \<noteq> None)"
  by (induction evs) (auto simp: recv_Nil recv_Cons split: option.split)

end

interpretation vrrp_recv: listener "vrrp_listener_recv unspec"
    "\<lambda>data addr. Some (take 512 data, case addr of Some ip \<Rightarrow> ip | None \<Rightarrow> unspec)" for unspec
  by unfold_locales (auto simp: recv_answer_def split: recv_event.split)

interpretation ndp_recv: listener ndp_listener_recv
    "\<lambda>data addr. Some (take 128 data, case addr of Some ip \<Rightarrow> ip | None \<Rightarrow> UNSPECIFIED6)"
  by unfold_locales (auto simp: recv_answer_def split: recv_event.split)

interpretation arp_recv: listener arp_listener_recv
    "\<lambda>data pkttype. if pkttype = PACKET_OUTGOING then None else Some (take 128 data)"
  by unfold_locales (auto simp: recv_answer_def split: recv_event.split)

section \<open>The conversations with the sockets\<close>

text \<open>What each sender asks of the system when nothing fails, in order.\<close>

definition vrrp_setup_v4 :: "string \<Rightarrow> u32 \<Rightarrow> trace" where
  "vrrp_setup_v4 ifname src_ip =
     [SockNew DomainIPV4 112, SockBindDevice ifname, SockBind (SaV4 src_ip), SockSetTtl 255,
      SockSetMulticastTtlV4 255]"

definition vrrp_setup_v6 :: "string \<Rightarrow> u128 \<Rightarrow> trace" where
  "vrrp_setup_v6 ifname src_ip =
     [SockNew DomainIPV6 112, SockBindDevice ifname, SockBind (SaV6 src_ip),
      SockSetUnicastHopsV6 255, SockSetMulticastHopsV6 255]"

definition vrrp_conv_v4 :: "string \<Rightarrow> u32 \<Rightarrow> bytes \<Rightarrow> trace" where
  "vrrp_conv_v4 ifname src_ip buf =
     vrrp_setup_v4 ifname src_ip @ [SockSendTo buf (SaV4 VRRP_MCAST_ADDR)]"

definition vrrp_conv_v6 :: "string \<Rightarrow> u128 \<Rightarrow> bytes \<Rightarrow> trace" where
  "vrrp_conv_v6 ifname src_ip buf =
     vrrp_setup_v6 ifname src_ip @ [SockSendTo buf (SaV6 VRRP_V6_MCAST_ADDR)]"

definition arp_conv :: "os \<Rightarrow> string \<Rightarrow> bytes \<Rightarrow> u32 \<Rightarrow> trace" where
  "arp_conv os ifname buf idx =
     [SockNew DomainPACKET (uint (to_be (os_big_endian os) ETH_P_ARP)), SockBindDevice ifname,
      SockSetBroadcast True, IfNameToIndex ifname, SockSendTo buf (arp_link_addr os idx)]"

definition na_conv :: "string \<Rightarrow> bytes \<Rightarrow> trace" where
  "na_conv ifname buf =
     [SockNew DomainIPV6 58, SockBindDevice ifname,
      SockSendTo buf (SaV6 ALL_NODES_V6_MCAST_ADDR)]"

lemma length_vrrp_setup: "length (vrrp_setup_v4 ifname a) = 5" "length (vrrp_setup_v6 ifname b) = 5"
  by (simp_all add: vrrp_setup_v4_def vrrp_setup_v6_def)

lemma requests_then_send:
  assumes "(case try_all os reqs tr of
      (Some err, tr) \<Rightarrow> Some (Some err, tr)
    | (None, tr) \<Rightarrow> do { buf \<leftarrow> encoded; Some (perform os (SockSendTo buf addr) tr) }) = Some (r, tr')"
  obtains (failed) err k where "r = Some err" "k < length reqs" "tr' = tr @ take (Suc k) reqs"
      "os_io os (tr @ take k reqs) (reqs ! k) = Some err"
    | (sent) buf where "encoded = Some buf" "tr' = tr @ reqs @ [SockSendTo buf addr]"
      "\<forall>k < length reqs. os_io os (tr @ take k reqs) (reqs ! k) = None"
proof -
  obtain res t where t: "try_all os reqs tr = (res, t)" by fastforce
  show ?thesis
  proof (cases res)
    case (Some err)
    with assms t have "r = Some err" "t = tr'" by simp_all
    with try_all_Some [of os reqs tr err t] t Some show ?thesis by (auto intro: failed)
  next
    case None
    with t have "t = tr @ reqs" "\<forall>k < length reqs. os_io os (tr @ take k reqs) (reqs ! k) = None"
      by (simp_all add: try_all_None)
    moreover from this assms t None obtain buf where "encoded = Some buf"
      "tr' = tr @ reqs @ [SockSendTo buf addr]"
      by (auto simp: perform_def bind_eq_Some_conv)
    ultimately show ?thesis by (intro sent)
  qed
qed

lemma send_vrrp_v4_cases:
  assumes "send_vrrp_packet_v4 C os ifname src_ip p tr = Some (r, tr')"
  obtains (failed) err k where "r = Some err" "k < 5" "tr' = tr @ take (Suc k) (vrrp_setup_v4 ifname src_ip)"
      "os_io os (tr @ take k (vrrp_setup_v4 ifname src_ip)) (vrrp_setup_v4 ifname src_ip ! k) = Some err"
    | (sent) buf where "encode C p (IpV4 src_ip) = Some buf" "tr' = tr @ vrrp_conv_v4 ifname src_ip buf"
      "\<forall>k < 5. os_io os (tr @ take k (vrrp_setup_v4 ifname src_ip)) (vrrp_setup_v4 ifname src_ip ! k) = None"
  using assms [unfolded send_vrrp_packet_v4_def VRRP_PROTOCOL_NUMBER_def, folded vrrp_setup_v4_def]
  by (rule requests_then_send) (auto simp: length_vrrp_setup vrrp_conv_v4_def intro: failed sent)

lemma send_vrrp_v6_cases:
  assumes "send_vrrp_packet_v6 C os ifname src_ip p tr = Some (r, tr')"
  obtains (failed) err k where "r = Some err" "k < 5" "tr' = tr @ take (Suc k) (vrrp_setup_v6 ifname src_ip)"
      "os_io os (tr @ take k (vrrp_setup_v6 ifname src_ip)) (vrrp_setup_v6 ifname src_ip ! k) = Some err"
    | (sent) buf where "encode C p (IpV6 src_ip) = Some buf" "tr' = tr @ vrrp_conv_v6 ifname src_ip buf"
      "\<forall>k < 5. os_io os (tr @ take k (vrrp_setup_v6 ifname src_ip)) (vrrp_setup_v6 ifname src_ip ! k) = None"
  using assms [unfolded send_vrrp_packet_v6_def VRRP_PROTOCOL_NUMBER_def, folded vrrp_setup_v6_def]
  by (rule requests_then_send) (auto simp: length_vrrp_setup vrrp_conv_v6_def intro: failed sent)

lemma if_index_trace:
  "if_index os ifname tr = (r, tr') \<Longrightarrow> tr' = tr \<and> (\<exists>e. r = Inl e) \<or> tr' = tr @ [IfNameToIndex ifname]"
  by (auto simp: if_index_def Let_def split: if_splits)

lemma send_packet_arp_prefix:
  "\<exists>k idx. send_packet_arp os ifname frame tr =
     tr @ take k (arp_conv os ifname (arp_frame_mem (os_big_endian os) frame) idx)"
proof (cases "os_io os tr (SockNew DomainPACKET (uint (to_be (os_big_endian os) ETH_P_ARP)))")
  case (Some err)
  then show ?thesis
    by (intro exI [of _ 1]) (simp add: send_packet_arp_def perform_def arp_conv_def)
next
  case None
  let ?tr = "tr @ take 3 (arp_conv os ifname [] 0)"
  obtain r t where r: "if_index os ifname ?tr = (r, t)" by fastforce
  have eq: "send_packet_arp os ifname frame tr =
    (case r of Inl _ \<Rightarrow> t
     | Inr idx \<Rightarrow> t @ [SockSendTo (arp_frame_mem (os_big_endian os) frame) (arp_link_addr os idx)])"
    using None r by (simp add: send_packet_arp_def perform_def arp_conv_def Let_def split: sum.split)
  from if_index_trace [OF r] show ?thesis
  proof
    assume "t = ?tr \<and> (\<exists>e. r = Inl e)"
    then show ?thesis using eq by (intro exI [of _ 3]) (auto simp: arp_conv_def)
  next
    assume t: "t = ?tr @ [IfNameToIndex ifname]"
    show ?thesis
    proof (cases r)
      case (Inl e)
      then show ?thesis using eq t by (intro exI [of _ 4]) (simp add: arp_conv_def)
    next
      case (Inr idx)
      then show ?thesis using eq t by (intro exI [of _ 5] exI [of _ idx]) (simp add: arp_conv_def)
    qed
  qed
qed

lemma send_na_cases:
  assumes "send_neighbor_advertisement C os ifname target na tr = Some tr'"
  shows "os_io os tr (SockNew DomainIPV6 58) \<noteq> None \<and> tr' = tr @ [SockNew DomainIPV6 58]
    \<or> (\<exists>buf. na_encode C na target ALL_NODES_V6_MCAST_ADDR = Some buf \<and> tr' = tr @ na_conv ifname buf)"
  using assms
  by (auto simp: send_neighbor_advertisement_def perform_def na_conv_def ICMPV6_PROTOCOL_NUMBER_def
      bind_eq_Some_conv split: option.splits)

section \<open>Disciplines the senders keep\<close>

locale socket_discipline = effect_discipline +
  assumes v4: "Q (take k (vrrp_conv_v4 ifname src4 buf))"
    and v6: "Q (take k (vrrp_conv_v6 ifname src6 buf))"
    and arp: "Q (take k (arp_conv os ifname buf idx))"
    and na: "Q (take k (na_conv ifname buf))"
begin

lemma ext_send_v4:
  assumes "send_vrrp_packet_v4 C os ifname src p tr = Some (r, tr')"
  shows "extends Q tr tr'"
  using assms
proof (cases rule: send_vrrp_v4_cases)
  case (failed err k)
  then have "tr' = tr @ take (Suc k) (vrrp_conv_v4 ifname src [])"
    by (simp add: vrrp_conv_v4_def length_vrrp_setup)
  then show ?thesis using v4 ext_append by simp
next
  case (sent buf)
  then show ?thesis using v4 [of 6 ifname src buf] ext_append
    by (simp add: vrrp_conv_v4_def vrrp_setup_v4_def)
qed

lemma ext_send_v6:
  assumes "send_vrrp_packet_v6 C os ifname src p tr = Some (r, tr')"
  shows "extends Q tr tr'"
  using assms
proof (cases rule: send_vrrp_v6_cases)
  case (failed err k)
  then have "tr' = tr @ take (Suc k) (vrrp_conv_v6 ifname src [])"
    by (simp add: vrrp_conv_v6_def length_vrrp_setup)
  then show ?thesis using v6 ext_append by simp
next
  case (sent buf)
  then show ?thesis using v6 [of 6 ifname src buf] ext_append
    by (simp add: vrrp_conv_v6_def vrrp_setup_v6_def)
qed

lemma ext_send_arp: "extends Q tr (send_packet_arp os ifname frame tr)"
  using send_packet_arp_prefix [of os ifname frame tr] arp ext_append by metis

lemma ext_send_na:
  "send_neighbor_advertisement C os ifname target na' tr = Some tr' \<Longrightarrow> extends Q tr tr'"
  using send_na_cases [of C os ifname target na' tr tr'] na [of 3 ifname] na [of 1 ifname] ext_append
  by (auto simp: na_conv_def)

end

text \<open>
  The hop limit of advertisements: a receiver drops an advertisement whose TTL is not 255, so
  a socket must have its multicast TTL (or hop limit) set to 255 before anything is sent to
  the VRRP group through it. The flag is whether that happened since the last \<open>SockNew\<close>.
\<close>

fun hops_set :: "bool \<Rightarrow> trace \<Rightarrow> bool" where
  "hops_set ready [] \<longleftrightarrow> True"
| "hops_set ready (e # es) \<longleftrightarrow>
     (case e of
        SockNew _ _ \<Rightarrow> hops_set False es
      | SockSetMulticastTtlV4 n \<Rightarrow> hops_set (n = 255) es
      | SockSetMulticastHopsV6 n \<Rightarrow> hops_set (n = 255) es
      | SockSendTo _ dst \<Rightarrow>
          (dst = SaV4 VRRP_MCAST_ADDR \<or> dst = SaV6 VRRP_V6_MCAST_ADDR \<longrightarrow> ready) \<and> hops_set ready es
      | _ \<Rightarrow> hops_set ready es)"

lemma hops_set_mono: "hops_set False es \<Longrightarrow> hops_set b es"
  by (induction es arbitrary: b) (auto split: effect.splits)

lemma hops_set_append: "hops_set b xs \<Longrightarrow> hops_set False ys \<Longrightarrow> hops_set b (xs @ ys)"
  by (induction xs arbitrary: b) (auto split: effect.splits intro: hops_set_mono)

lemma all_nodes_not_vrrp [simp]: "ALL_NODES_V6_MCAST_ADDR \<noteq> VRRP_V6_MCAST_ADDR"
proof -
  have "octets6 ALL_NODES_V6_MCAST_ADDR \<noteq> octets6 VRRP_V6_MCAST_ADDR"
    unfolding ALL_NODES_V6_MCAST_ADDR_def VRRP_V6_MCAST_ADDR_def ipv6_new_def
    by (subst be_of_be, simp)+ (simp add: be16_two)
  then show ?thesis by auto
qed

interpretation hops: socket_discipline "hops_set False"
proof unfold_locales
  show "hops_set False []" by simp
  show "hops_set False xs \<Longrightarrow> hops_set False ys \<Longrightarrow> hops_set False (xs @ ys)" for xs ys
    by (rule hops_set_append)
  show "hops_set False (take k (vrrp_conv_v4 ifname src4 buf))" for k ifname src4 buf
    unfolding vrrp_conv_v4_def vrrp_setup_v4_def by (auto simp: take_Cons split: nat.split)
  show "hops_set False (take k (vrrp_conv_v6 ifname src6 buf))" for k ifname src6 buf
    unfolding vrrp_conv_v6_def vrrp_setup_v6_def by (auto simp: take_Cons split: nat.split)
  show "hops_set False (take k (arp_conv os ifname buf idx))" for k os ifname buf idx
    unfolding arp_conv_def arp_link_addr_def by (auto simp: take_Cons split: nat.split)
  show "hops_set False (take k (na_conv ifname buf))" for k ifname buf
    unfolding na_conv_def by (auto simp: take_Cons split: nat.split)
qed

section \<open>Properties of the sockets\<close>

text \<open>C20: Sending an advertisement either fails at the first refused set-up request,
  having sent nothing, and reports that request's error; or the five set-up requests succeeded,
  binding the socket to the interface and the source address and setting both hop limits to
  255, and then the encoded packet is sent once to the VRRP group. For both families.\<close>

theorem advert_send_exact:
  assumes "send_vrrp_packet_v4 C os if4 src4 p4 tr = Some (r4, tr4)"
    and "send_vrrp_packet_v6 C os if6 src6 p6 tr = Some (r6, tr6)"
  shows "((\<exists>k < 5. \<exists>err. os_io os (tr @ take k (vrrp_setup_v4 if4 src4)) (vrrp_setup_v4 if4 src4 ! k) = Some err
            \<and> r4 = Some err \<and> tr4 = tr @ take (Suc k) (vrrp_setup_v4 if4 src4))
        \<or> (\<forall>k < 5. os_io os (tr @ take k (vrrp_setup_v4 if4 src4)) (vrrp_setup_v4 if4 src4 ! k) = None)
          \<and> (\<exists>buf. encode C p4 (IpV4 src4) = Some buf
               \<and> tr4 = tr @ vrrp_setup_v4 if4 src4 @ [SockSendTo buf (SaV4 VRRP_MCAST_ADDR)]))
       \<and> ((\<exists>k < 5. \<exists>err. os_io os (tr @ take k (vrrp_setup_v6 if6 src6)) (vrrp_setup_v6 if6 src6 ! k) = Some err
            \<and> r6 = Some err \<and> tr6 = tr @ take (Suc k) (vrrp_setup_v6 if6 src6))
        \<or> (\<forall>k < 5. os_io os (tr @ take k (vrrp_setup_v6 if6 src6)) (vrrp_setup_v6 if6 src6 ! k) = None)
          \<and> (\<exists>buf. encode C p6 (IpV6 src6) = Some buf
               \<and> tr6 = tr @ vrrp_setup_v6 if6 src6 @ [SockSendTo buf (SaV6 VRRP_V6_MCAST_ADDR)]))"
proof
  show "(\<exists>k < 5. \<exists>err. os_io os (tr @ take k (vrrp_setup_v4 if4 src4)) (vrrp_setup_v4 if4 src4 ! k) = Some err
            \<and> r4 = Some err \<and> tr4 = tr @ take (Suc k) (vrrp_setup_v4 if4 src4))
        \<or> (\<forall>k < 5. os_io os (tr @ take k (vrrp_setup_v4 if4 src4)) (vrrp_setup_v4 if4 src4 ! k) = None)
          \<and> (\<exists>buf. encode C p4 (IpV4 src4) = Some buf
               \<and> tr4 = tr @ vrrp_setup_v4 if4 src4 @ [SockSendTo buf (SaV4 VRRP_MCAST_ADDR)])"
    using assms(1) by (rule send_vrrp_v4_cases) (auto simp: vrrp_conv_v4_def)
  show "(\<exists>k < 5. \<exists>err. os_io os (tr @ take k (vrrp_setup_v6 if6 src6)) (vrrp_setup_v6 if6 src6 ! k) = Some err
            \<and> r6 = Some err \<and> tr6 = tr @ take (Suc k) (vrrp_setup_v6 if6 src6))
        \<or> (\<forall>k < 5. os_io os (tr @ take k (vrrp_setup_v6 if6 src6)) (vrrp_setup_v6 if6 src6 ! k) = None)
          \<and> (\<exists>buf. encode C p6 (IpV6 src6) = Some buf
               \<and> tr6 = tr @ vrrp_setup_v6 if6 src6 @ [SockSendTo buf (SaV6 VRRP_V6_MCAST_ADDR)])"
    using assms(2) by (rule send_vrrp_v6_cases) (auto simp: vrrp_conv_v6_def)
qed

text \<open>An advertisement without addresses of each family, sent on the example system.\<close>

definition example_advert :: "vrrp_addresses \<Rightarrow> vrrp_packet" where
  "example_advert as = \<lparr>version = V3, vrid = 51, priority = 100, adver_int_cs = 100, addresses = as\<rparr>"

theorem advert_send_exact_witness:
  "\<exists>tr4 buf. send_vrrp_packet_v4 list_crates (example_os 0) ''e'' 1 (example_advert (AddrsV4 [])) []
       = Some (None, tr4)
     \<and> tr4 = vrrp_setup_v4 ''e'' 1 @ [SockSendTo buf (SaV4 VRRP_MCAST_ADDR)]"
proof -
  obtain b4 where "encode list_crates (example_advert (AddrsV4 [])) (IpV4 1) = Some b4"
    using lc.encode_total by blast
  then have s4: "send_vrrp_packet_v4 list_crates (example_os 0) ''e'' 1 (example_advert (AddrsV4 [])) []
      = Some (None, vrrp_conv_v4 ''e'' 1 b4)"
    by (simp add: send_vrrp_packet_v4_def perform_def vrrp_conv_v4_def vrrp_setup_v4_def
        VRRP_PROTOCOL_NUMBER_def)
  obtain b6 where "encode list_crates (example_advert (AddrsV6 [])) (IpV6 1) = Some b6"
    using lc.encode_total by blast
  then have s6: "send_vrrp_packet_v6 list_crates (example_os 0) ''e'' 1 (example_advert (AddrsV6 [])) []
      = Some (None, vrrp_conv_v6 ''e'' 1 b6)"
    by (simp add: send_vrrp_packet_v6_def perform_def vrrp_conv_v6_def vrrp_setup_v6_def
        VRRP_PROTOCOL_NUMBER_def)
  from advert_send_exact [OF s4 s6] s4 show ?thesis by (auto simp: vrrp_conv_v4_def)
qed

text \<open>The ARP listener hands out exactly the first frame that was not sent by this host
  itself, cut to 128 bytes; before it only blocked reads and outgoing frames were skipped.\<close>

lemma arp_recv_no_echo:
  "arp_listener_recv evs = Some (Inr buf, rest) \<longleftrightarrow>
   (\<exists>skipped data ty. evs = skipped @ RecvOk data ty # rest \<and> ty \<noteq> 4 \<and> buf = take 128 data
      \<and> (\<forall>s \<in> set skipped. s = WouldBlock \<or> (\<exists>d. s = RecvOk d 4)))"
proof -
  let ?deliver = "\<lambda>data pkttype. if pkttype = PACKET_OUTGOING then None else Some (take 128 data)"
  have none: "recv_answer ?deliver s = None \<longleftrightarrow> s = WouldBlock \<or> (\<exists>d. s = RecvOk d 4)" for s
    by (auto simp: recv_answer_def PACKET_OUTGOING_def split: recv_event.split)
  have some: "recv_answer ?deliver e = Some (Inr buf) \<longleftrightarrow>
      (\<exists>data ty. e = RecvOk data ty \<and> ty \<noteq> 4 \<and> buf = take 128 data)" for e
    by (auto simp: recv_answer_def PACKET_OUTGOING_def split: recv_event.split)
  show ?thesis
    unfolding arp_recv.recv_iff none some by auto
qed

lemma recv_answer_None:
  "recv_answer (\<lambda>data addr. Some (f data addr)) e = None \<longleftrightarrow> e = WouldBlock"
  "recv_answer (\<lambda>data addr. if P addr then None else Some (f data addr)) e = None \<longleftrightarrow>
     e = WouldBlock \<or> (\<exists>d a. e = RecvOk d a \<and> P a)"
  by (auto simp: recv_answer_def split: recv_event.split)

text \<open>C40: The receive loops return as soon as the socket gives them anything to return,
  and wait for ever exactly when it never does: the VRRP and neighbour listeners on reads that
  block, the ARP listener on those and on copies of frames this host sent. Of these it never
  hands one out: a frame it returns is the first that came from elsewhere, cut to 128 bytes, so
  the handler cannot answer the instance's own gratuitous ARPs.\<close>

theorem listeners_return:
  "(vrrp_listener_recv unspec evs4 = None \<longleftrightarrow> list_all (\<lambda>e. e = WouldBlock) evs4)
   \<and> (ndp_listener_recv evs6 = None \<longleftrightarrow> list_all (\<lambda>e. e = WouldBlock) evs6)
   \<and> (arp_listener_recv evs = None \<longleftrightarrow> list_all (\<lambda>e. e = WouldBlock \<or> (\<exists>d. e = RecvOk d 4)) evs)
   \<and> (arp_listener_recv evs = Some (Inr buf, rest) \<longleftrightarrow>
       (\<exists>skipped data ty. evs = skipped @ RecvOk data ty # rest \<and> ty \<noteq> 4 \<and> buf = take 128 data
          \<and> list_all (\<lambda>s. s = WouldBlock \<or> (\<exists>d. s = RecvOk d 4)) skipped))"
  using vrrp_recv.recv_returns [of unspec evs4] ndp_recv.recv_returns [of evs6]
    arp_recv.recv_returns [of evs] arp_recv_no_echo [of evs buf rest]
  by (auto simp: recv_answer_None list_all_iff PACKET_OUTGOING_def)

text \<open>Sending a Neighbor Advertisement never sets a hop limit on its socket:
  the requests are the socket, the device binding and the send, so the advertisement leaves
  with the system's default hop limit for multicast, not with the 255 that RFC 4861 section
  7.1.2 makes receivers insist on.\<close>

theorem na_hop_limit_missing:
  assumes "send_neighbor_advertisement C os ifname target na tr = Some tr'"
  shows "\<exists>es. tr' = tr @ es \<and> list_all (\<lambda>e. \<forall>n. e \<noteq> SockSetMulticastHopsV6 n \<and> e \<noteq> SockSetUnicastHopsV6 n) es
    \<and> (os_io os tr (SockNew DomainIPV6 58) = None
       \<longrightarrow> (\<exists>buf. es = [SockNew DomainIPV6 58, SockBindDevice ifname,
                       SockSendTo buf (SaV6 ALL_NODES_V6_MCAST_ADDR)]))"
  using send_na_cases [OF assms] by (auto simp: na_conv_def)

theorem na_hop_limit_missing_witness:
  "\<exists>tr' buf. send_neighbor_advertisement list_crates (example_os 0) ''e'' 5
       \<lparr>na_target_address = 5, na_target_link_addr = example_mac, na_override_flag = True\<rparr> [] = Some tr'
     \<and> tr' = [SockNew DomainIPV6 58, SockBindDevice ''e'', SockSendTo buf (SaV6 ALL_NODES_V6_MCAST_ADDR)]"
proof -
  let ?na = "\<lparr>na_target_address = 5, na_target_link_addr = example_mac, na_override_flag = True\<rparr>"
  obtain b where "na_encode list_crates ?na 5 ALL_NODES_V6_MCAST_ADDR = Some b"
    using lc.na_encode_total by blast
  then have s: "send_neighbor_advertisement list_crates (example_os 0) ''e'' 5 ?na [] = Some (na_conv ''e'' b)"
    by (simp add: send_neighbor_advertisement_def perform_def na_conv_def ICMPV6_PROTOCOL_NUMBER_def)
  from na_hop_limit_missing [OF s] s show ?thesis by auto
qed

end
