(* ===== verification/Router.thy ===== *)
theory Router
  imports Network
begin

text \<open>
  The virtual router of \<open>src/src/router.rs\<close>: its record, its construction with the timer
  formulas of both protocol versions, and the messages it sends. The fields carry the prefix
  \<open>vr_\<close>, since the packet record already uses some of the names.
\<close>

record virtual_router =
  vr_name :: string
  vr_vrid :: u8
  vr_version :: vrrp_version
  vr_ipv4_addresses :: "ipv4_net list"
  vr_ipv6_addresses :: "ipv6_net list"
  vr_priority :: u8
  vr_skew_time :: f32
  vr_advert_interval :: u8
  vr_master_down_interval :: f32
  vr_preempt_mode :: bool
  vr_network_interface :: string
  vr_mac_vlan_interface_v4 :: string
  vr_mac_vlan_interface_v6 :: "string option"
  vr_primary_ip :: u32
  vr_primary_ip_v6 :: "u128 option"
  vr_fsm :: vr_machine

record router_params =
  par_name :: string
  par_vrid :: u8
  par_version :: vrrp_version
  par_ipv4_addresses :: "ipv4_net list"
  par_ipv6_addresses :: "ipv6_net list"
  par_priority :: u8
  par_advert_interval :: u8
  par_preempt_mode :: bool
  par_network_interface :: string

definition ipv4_addrs :: "virtual_router \<Rightarrow> u32 list" where
  "ipv4_addrs vr = map addr4 (vr_ipv4_addresses vr)"

definition str_ipv4_addresses :: "crates \<Rightarrow> virtual_router \<Rightarrow> string list" where
  "str_ipv4_addresses C vr = map (show_ipv4_net C) (vr_ipv4_addresses vr)"

definition ipv6_addrs :: "virtual_router \<Rightarrow> u128 list" where
  "ipv6_addrs vr = map addr6 (vr_ipv6_addresses vr)"

definition str_ipv6_addresses :: "crates \<Rightarrow> virtual_router \<Rightarrow> string list" where
  "str_ipv6_addresses C vr = map (show_ipv6_net C) (vr_ipv6_addresses vr)"

section \<open>Construction\<close>

fun skew_time_of :: "vrrp_version \<Rightarrow> u8 \<Rightarrow> u8 \<Rightarrow> f32" where
  "skew_time_of V2 prio advert_interval =
     f32_div (f32_sub 256 (f32_of_u8 prio)) 256"
| "skew_time_of V3 prio advert_interval =
     f32_div (f32_mul (f32_sub 256 (f32_of_u8 prio)) (f32_of_u8 advert_interval)) 256"

definition router_new :: "router_params \<Rightarrow> virtual_router" where
  "router_new params =
     (let skew_time = skew_time_of (par_version params) (par_priority params) (par_advert_interval params);
          master_down_interval = f32_add (f32_mul 3 (f32_of_u8 (par_advert_interval params))) skew_time;
          mac_vlan_interface_v6 = (case par_version params of V3 \<Rightarrow> Some [] | V2 \<Rightarrow> None)
      in \<lparr>vr_name = par_name params,
          vr_vrid = par_vrid params,
          vr_version = par_version params,
          vr_ipv4_addresses = par_ipv4_addresses params,
          vr_ipv6_addresses = par_ipv6_addresses params,
          vr_priority = par_priority params,
          vr_skew_time = skew_time,
          vr_advert_interval = par_advert_interval params,
          vr_master_down_interval = master_down_interval,
          vr_preempt_mode = par_preempt_mode params,
          vr_network_interface = par_network_interface params,
          vr_mac_vlan_interface_v4 = [],
          vr_mac_vlan_interface_v6 = mac_vlan_interface_v6,
          vr_primary_ip = UNSPECIFIED4,
          vr_primary_ip_v6 = None,
          vr_fsm = default_machine\<rparr>)"

section \<open>Messages\<close>

definition adver_int_of :: "virtual_router \<Rightarrow> u16" where
  "adver_int_of vr = ucast (vr_advert_interval vr) * 100"

definition advert_v4 :: "virtual_router \<Rightarrow> vrrp_packet" where
  "advert_v4 vr = \<lparr>version = vr_version vr, vrid = vr_vrid vr, priority = vr_priority vr,
     adver_int_cs = adver_int_of vr, addresses = AddrsV4 (ipv4_addrs vr)\<rparr>"

definition advert_v6 :: "virtual_router \<Rightarrow> vrrp_packet" where
  "advert_v6 vr = \<lparr>version = vr_version vr, vrid = vr_vrid vr, priority = vr_priority vr,
     adver_int_cs = adver_int_of vr, addresses = AddrsV6 (ipv6_addrs vr)\<rparr>"

definition send_advertisement :: "crates \<Rightarrow> os \<Rightarrow> virtual_router \<Rightarrow> trace \<Rightarrow> trace option" where
  "send_advertisement C os vr tr = do {
     (_, tr) \<leftarrow> send_vrrp_packet_v4 C os (vr_mac_vlan_interface_v4 vr) (vr_primary_ip vr)
                  (advert_v4 vr) tr;
     (case (vr_mac_vlan_interface_v6 vr, vr_primary_ip_v6 vr) of
        (Some v6_iface, Some src_v6) \<Rightarrow> do {
          (_, tr) \<leftarrow> send_vrrp_packet_v6 C os v6_iface src_v6 (advert_v6 vr) tr;
          Some tr
        }
      | _ \<Rightarrow> Some tr)
   }"

definition gratuitous_arp :: "os \<Rightarrow> mac \<Rightarrow> ipv4_net \<Rightarrow> arp_frame" where
  "gratuitous_arp os interface_mac ip =
     arp_frame_new (os_big_endian os)
       \<lparr>eth_dst_mac = replicate 6 0xff, eth_src_mac = interface_mac, eth_ethertype = 0x0806\<rparr>
       \<lparr>hw_type = 1, proto_type = 0x0800, hw_length = 6, proto_length = 4, operation = 1,
        sender_hw_address = interface_mac, sender_proto_address = octets4 (addr4 ip),
        target_hw_address = replicate 6 0xff, target_proto_address = octets4 (addr4 ip)\<rparr>"

definition send_gratuitous_arps :: "os \<Rightarrow> virtual_router \<Rightarrow> mac \<Rightarrow> trace \<Rightarrow> trace" where
  "send_gratuitous_arps os vr interface_mac tr =
     foldl (\<lambda>tr ip. send_packet_arp os (vr_mac_vlan_interface_v4 vr)
                      (gratuitous_arp os interface_mac ip) tr)
       tr (vr_ipv4_addresses vr)"

fun send_nas :: "crates \<Rightarrow> os \<Rightarrow> string \<Rightarrow> mac \<Rightarrow> ipv6_net list \<Rightarrow> trace \<Rightarrow> trace option" where
  "send_nas C os v6_iface interface_mac [] tr = Some tr"
| "send_nas C os v6_iface interface_mac (ip # ips) tr = do {
     tr \<leftarrow> send_neighbor_advertisement C os v6_iface (addr6 ip)
             \<lparr>na_target_address = addr6 ip, na_target_link_addr = interface_mac,
              na_override_flag = True\<rparr> tr;
     send_nas C os v6_iface interface_mac ips tr
   }"

definition send_neighbor_advertisements ::
  "crates \<Rightarrow> os \<Rightarrow> virtual_router \<Rightarrow> mac \<Rightarrow> trace \<Rightarrow> trace option" where
  "send_neighbor_advertisements C os vr interface_mac tr =
     (case vr_mac_vlan_interface_v6 vr of
        None \<Rightarrow> Some tr
      | Some v6_iface \<Rightarrow> send_nas C os v6_iface interface_mac (vr_ipv6_addresses vr) tr)"

text \<open>The messages keep every discipline of the senders.\<close>

context socket_discipline
begin

lemma ext_send_advertisement:
  "send_advertisement C os vr tr = Some tr' \<Longrightarrow> extends Q tr tr'"
  by (auto simp: send_advertisement_def bind_eq_Some_conv split: option.splits
      dest!: ext_send_v4 ext_send_v6 intro: ext_trans)

lemma ext_gratuitous_arps: "extends Q tr (send_gratuitous_arps os vr mac tr)"
  unfolding send_gratuitous_arps_def by (rule ext_foldl) (rule ext_send_arp)

lemma ext_send_nas: "send_nas C os v6_iface mac ips tr = Some tr' \<Longrightarrow> extends Q tr tr'"
  by (induction ips arbitrary: tr)
    (auto simp: bind_eq_Some_conv dest!: ext_send_na intro: ext_refl ext_trans)

lemma ext_send_neighbor_advertisements:
  "send_neighbor_advertisements C os vr mac tr = Some tr' \<Longrightarrow> extends Q tr tr'"
  by (auto simp: send_neighbor_advertisements_def ext_refl intro: ext_send_nas split: option.splits)

end

text \<open>No message panics.\<close>

context wire_crates
begin

lemma send_v4_total: "\<exists>r tr'. send_vrrp_packet_v4 C os ifname src p tr = Some (r, tr')"
  using encode_total [of p "IpV4 src"]
  by (auto simp: send_vrrp_packet_v4_def perform_def simp del: try_all.simps split: prod.split option.split)

lemma send_v6_total: "\<exists>r tr'. send_vrrp_packet_v6 C os ifname src p tr = Some (r, tr')"
  using encode_total [of p "IpV6 src"]
  by (auto simp: send_vrrp_packet_v6_def perform_def simp del: try_all.simps split: prod.split option.split)

lemma send_advertisement_total: "\<exists>tr'. send_advertisement C os vr tr = Some tr'"
proof -
  obtain r tr1 where v4: "send_vrrp_packet_v4 C os (vr_mac_vlan_interface_v4 vr) (vr_primary_ip vr)
      (advert_v4 vr) tr = Some (r, tr1)"
    using send_v4_total by blast
  show ?thesis
  proof (cases "\<exists>v6_iface src_v6. vr_mac_vlan_interface_v6 vr = Some v6_iface \<and> vr_primary_ip_v6 vr = Some src_v6")
    case True
    then obtain v6_iface src_v6 where v6: "vr_mac_vlan_interface_v6 vr = Some v6_iface"
      "vr_primary_ip_v6 vr = Some src_v6" by blast
    obtain r2 tr2 where "send_vrrp_packet_v6 C os v6_iface src_v6 (advert_v6 vr) tr1 = Some (r2, tr2)"
      using send_v6_total by blast
    with v4 v6 show ?thesis by (simp add: send_advertisement_def)
  next
    case False
    with v4 show ?thesis by (auto simp: send_advertisement_def split: option.split)
  qed
qed

lemma send_na_total: "\<exists>tr'. send_neighbor_advertisement C os ifname target na tr = Some tr'"
  using na_encode_total [of na target ALL_NODES_V6_MCAST_ADDR]
  by (auto simp: send_neighbor_advertisement_def perform_def split: option.split)

lemma send_nas_total: "\<exists>tr'. send_nas C os v6_iface mac ips tr = Some tr'"
proof (induction ips arbitrary: tr)
  case Nil
  then show ?case by simp
next
  case (Cons ip ips)
  obtain tr1 where "send_neighbor_advertisement C os v6_iface (addr6 ip)
      \<lparr>na_target_address = addr6 ip, na_target_link_addr = mac, na_override_flag = True\<rparr> tr = Some tr1"
    using send_na_total by blast
  with Cons.IH [of tr1] show ?case by simp
qed

lemma send_neighbor_advertisements_total:
  "\<exists>tr'. send_neighbor_advertisements C os vr mac tr = Some tr'"
  using send_nas_total by (auto simp: send_neighbor_advertisements_def split: option.split)

end

section \<open>The payloads on the wire\<close>

text \<open>
  What leaves the host when the system refuses nothing: the payloads of the \<open>SockSendTo\<close>
  requests. An advertisement goes out once per address family that has an interface and a
  source address; ownership is announced address by address.
\<close>

fun payloads :: "trace \<Rightarrow> bytes list" where
  "payloads [] = []"
| "payloads (SockSendTo buf _ # es) = buf # payloads es"
| "payloads (_ # es) = payloads es"

lemma payloads_append [simp]: "payloads (xs @ ys) = payloads xs @ payloads ys"
  by (induction xs rule: payloads.induct) simp_all

lemma payloads_setup [simp]: "payloads (vrrp_setup_v4 ifname a) = []" "payloads (vrrp_setup_v6 ifname b) = []"
  by (simp_all add: vrrp_setup_v4_def vrrp_setup_v6_def)

definition quiet :: "os \<Rightarrow> bool" where
  "quiet os \<longleftrightarrow> no_failures os \<and> (\<forall>tr name. os_if_nametoindex os tr name \<noteq> 0)"

definition sealed_v4 :: "vrrp_packet \<Rightarrow> u32 list \<Rightarrow> bytes" where
  "sealed_v4 p addrs = msg_v4 p addrs (internet_checksum (msg_v4 p addrs (0, 0)))"

definition sealed_v6 :: "vrrp_packet \<Rightarrow> u128 \<Rightarrow> u128 list \<Rightarrow> bytes" where
  "sealed_v6 p src addrs = msg_v6 p addrs (internet_checksum
     (pseudo_v6 src VRRP_V6_MCAST_ADDR (8 + length addrs * 16) 112 @ msg_v6 p addrs (0, 0)))"

definition advert_payloads :: "virtual_router \<Rightarrow> bytes list" where
  "advert_payloads vr =
     sealed_v4 (advert_v4 vr) (ipv4_addrs vr)
     # (case (vr_mac_vlan_interface_v6 vr, vr_primary_ip_v6 vr) of
          (Some _, Some src) \<Rightarrow> [sealed_v6 (advert_v6 vr) src (ipv6_addrs vr)]
        | _ \<Rightarrow> [])"

definition garp_bytes :: "mac \<Rightarrow> u32 \<Rightarrow> bytes" where
  "garp_bytes mac addr =
     replicate 6 0xff @ mac @ be16 0x0806 @ be16 1 @ be16 0x0800 @ [6, 4] @ be16 1
     @ mac @ octets4 addr @ replicate 6 0xff @ octets4 addr"

definition na_bytes :: "mac \<Rightarrow> u128 \<Rightarrow> bytes" where
  "na_bytes mac addr =
     (let na = \<lparr>na_target_address = addr, na_target_link_addr = mac, na_override_flag = True\<rparr>
      in na_msg na (internet_checksum
           (pseudo_v6 addr ALL_NODES_V6_MCAST_ADDR 32 58 @ na_msg na (0, 0))))"

lemma gratuitous_arp_bytes:
  "arp_frame_mem (os_big_endian os) (gratuitous_arp os mac ip) = garp_bytes mac (addr4 ip)"
  unfolding gratuitous_arp_def arp_frame_wire
  by (simp only: ethernet_frame.simps arp_packet.simps arp_bytes_def garp_bytes_def append_assoc)

lemma payloads_send_arp:
  assumes "quiet os" and "CHR 0x00 \<notin> set ifname"
  shows "payloads (send_packet_arp os ifname frame tr) =
         payloads tr @ [arp_frame_mem (os_big_endian os) frame]"
  using assms by (simp add: send_packet_arp_def perform_def if_index_def quiet_def Let_def)

lemma payloads_gratuitous_arps:
  assumes "quiet os" and "CHR 0x00 \<notin> set (vr_mac_vlan_interface_v4 vr)"
  shows "payloads (send_gratuitous_arps os vr mac tr) =
         payloads tr @ map (garp_bytes mac) (ipv4_addrs vr)"
proof -
  have "payloads (foldl (\<lambda>tr ip. send_packet_arp os (vr_mac_vlan_interface_v4 vr)
          (gratuitous_arp os mac ip) tr) tr ips)
        = payloads tr @ map (\<lambda>ip. garp_bytes mac (addr4 ip)) ips" for ips
    using assms by (induction ips arbitrary: tr) (simp_all add: payloads_send_arp gratuitous_arp_bytes)
  then show ?thesis by (simp add: send_gratuitous_arps_def ipv4_addrs_def comp_def)
qed

context wire_crates
begin

lemma payloads_advertisement:
  assumes "no_failures os" and "send_advertisement C os vr tr = Some tr'"
  shows "payloads tr' = payloads tr @ advert_payloads vr"
  using assms
  by (auto simp: send_advertisement_def send_vrrp_packet_v4_def send_vrrp_packet_v6_def encode_def
      advert_v4_def advert_v6_def encode_v4_layout encode_v6_layout perform_def advert_payloads_def
      sealed_v4_def sealed_v6_def bind_eq_Some_conv split: option.splits)

lemma payloads_neighbor_advertisement:
  assumes "no_failures os" and "length mac = 6"
    and "send_neighbor_advertisement C os ifname addr
           \<lparr>na_target_address = addr, na_target_link_addr = mac, na_override_flag = True\<rparr> tr = Some tr'"
  shows "payloads tr' = payloads tr @ [na_bytes mac addr]"
  using assms
  by (auto simp: send_neighbor_advertisement_def perform_def na_encode_layout na_bytes_def Let_def)

lemma payloads_neighbor_advertisements:
  assumes "no_failures os" and "length mac = 6"
    and "send_neighbor_advertisements C os vr mac tr = Some tr'"
  shows "payloads tr' = payloads tr @
    (if vr_mac_vlan_interface_v6 vr = None then [] else map (na_bytes mac) (ipv6_addrs vr))"
proof -
  have nas: "payloads tr' = payloads tr @ map (\<lambda>ip. na_bytes mac (addr6 ip)) ips"
    if "send_nas C os v6_iface mac ips tr = Some tr'" for v6_iface ips tr tr'
    using that
  proof (induction ips arbitrary: tr)
    case Nil
    then show ?case by simp
  next
    case (Cons ip ips)
    then obtain tr1 where "send_neighbor_advertisement C os v6_iface (addr6 ip)
        \<lparr>na_target_address = addr6 ip, na_target_link_addr = mac, na_override_flag = True\<rparr> tr = Some tr1"
      "send_nas C os v6_iface mac ips tr1 = Some tr'"
      by (auto simp: bind_eq_Some_conv)
    with Cons.IH payloads_neighbor_advertisement [OF assms(1,2)] show ?case by fastforce
  qed
  with assms(3) show ?thesis
    by (auto simp: send_neighbor_advertisements_def ipv6_addrs_def comp_def split: option.splits)
qed

end

section \<open>Timer values\<close>

text \<open>
  The timer formulas as exact numbers of 256ths of a second: single precision loses nothing.
\<close>

fun skew_ticks :: "vrrp_version \<Rightarrow> u8 \<Rightarrow> u8 \<Rightarrow> nat" where
  "skew_ticks V2 prio advert_interval = 256 - unat prio"
| "skew_ticks V3 prio advert_interval = (256 - unat prio) * unat advert_interval"

definition down_ticks :: "vrrp_version \<Rightarrow> u8 \<Rightarrow> u8 \<Rightarrow> nat" where
  "down_ticks v prio advert_interval =
     768 * unat advert_interval + skew_ticks v prio advert_interval"

lemma skew_ticks_bound: "skew_ticks v p a \<le> 256 * 255"
proof (cases v)
  case V2
  then show ?thesis by simp
next
  case V3
  have "(256 - unat p) * unat a \<le> 256 * 255"
    using unat_lt_256 [of a] by (intro mult_le_mono) auto
  with V3 show ?thesis by simp
qed

lemma down_ticks_bound: "down_ticks v p a \<le> 768 * 255 + 256 * 255"
  using skew_ticks_bound [of v p a] unat_lt_256 [of a]
  unfolding down_ticks_def by (intro add_mono) auto

lemma f32_256_minus: "f32_sub 256 (f32_of_u8 p) = of_nat (256 - unat p)"
proof -
  have "256 - of_nat (unat p) = (of_nat (256 - unat p) :: rat)"
    using unat_lt_256 [of p] by (simp add: of_nat_diff)
  moreover have "timer_value (of_nat (256 - unat p)) ((256 - unat p) * 256)"
    by (simp add: timer_value_def)
  ultimately show ?thesis
    by (simp only: f32_sub_def f32_of_u8) (metis f32_round_exact)
qed

lemma skew_time_exact: "timer_value (skew_time_of v p a) (skew_ticks v p a)"
proof (cases v)
  case V2
  have "timer_value (of_nat (256 - unat p) / 256) (256 - unat p)"
    by (simp add: timer_value_def)
  then show ?thesis
    using V2 by (simp add: f32_256_minus f32_div_def f32_round_exact)
next
  case V3
  let ?n = "(256 - unat p) * unat a"
  have n: "?n < 65536"
    using skew_ticks_bound [of V3 p a] by simp
  have m: "timer_value (of_nat k) (k * 256) \<and> timer_value (of_nat k / 256) k" if "k < 65536" for k
    using that by (simp add: timer_value_def)
  have "timer_value (of_nat ?n) (?n * 256)" and t: "timer_value (of_nat ?n / 256) ?n"
    using m [OF n] by blast+
  then have "f32_mul (of_nat (256 - unat p)) (f32_of_u8 a) = of_nat ?n"
    by (simp only: f32_mul_def f32_of_u8 of_nat_mult [symmetric] f32_round_exact)
  then have "skew_time_of V3 p a = of_nat ?n / 256"
    using t by (simp only: skew_time_of.simps f32_256_minus f32_div_def f32_round_exact)
  with t V3 show ?thesis by (simp only: skew_ticks.simps)
qed

lemma down_interval_exact:
  "timer_value (f32_add (f32_mul 3 (f32_of_u8 a)) (skew_time_of v p a)) (down_ticks v p a)"
proof -
  have "timer_value (of_nat (3 * unat a)) (3 * unat a * 256)"
    using unat_lt_256 [of a] by (simp add: timer_value_def)
  then have m: "f32_mul 3 (f32_of_u8 a) = of_nat (3 * unat a)"
    by (simp only: f32_mul_def f32_of_u8) (metis f32_round_exact of_nat_mult of_nat_numeral)
  have s: "skew_time_of v p a = of_nat (skew_ticks v p a) / 256"
    using skew_time_exact [of v p a] by (simp add: timer_value_def)
  have t: "timer_value (of_nat (3 * unat a) + of_nat (skew_ticks v p a) / 256) (down_ticks v p a)"
    using down_ticks_bound [of v p a] by (simp add: timer_value_def down_ticks_def field_simps)
  then show ?thesis
    by (simp only: m s f32_add_def f32_round_exact [OF t])
qed

text \<open>
  The timer fields of a router are those of its construction: no operation writes them.
\<close>

definition timers_ok :: "virtual_router \<Rightarrow> bool" where
  "timers_ok vr \<longleftrightarrow>
     timer_value (vr_skew_time vr)
       (skew_ticks (vr_version vr) (vr_priority vr) (vr_advert_interval vr))
   \<and> timer_value (vr_master_down_interval vr)
       (down_ticks (vr_version vr) (vr_priority vr) (vr_advert_interval vr))"

lemma router_new_timers_ok: "timers_ok (router_new params)"
  by (simp add: timers_ok_def router_new_def skew_time_exact down_interval_exact Let_def)

lemma advert_interval_value:
  "timer_value (f32_of_u8 (vr_advert_interval vr)) (unat (vr_advert_interval vr) * 256)"
  using unat_lt_256 [of "vr_advert_interval vr"] by (simp add: timer_value_def f32_of_u8)

section \<open>An example router\<close>

text \<open>
  A version 2 instance with VRID 51, priority 100, one virtual address and an advertisement
  interval of one second, with its mac-vlan on \<open>eth0\<close>.
\<close>

definition example_net :: ipv4_net where
  "example_net = \<lparr>addr4 = ipv4_new 10 0 0 1, prefix_len4 = 24\<rparr>"

definition example_params :: router_params where
  "example_params = \<lparr>par_name = ''VR_1'', par_vrid = 51, par_version = V2,
     par_ipv4_addresses = [example_net], par_ipv6_addresses = [], par_priority = 100,
     par_advert_interval = 1, par_preempt_mode = True, par_network_interface = ''eth0''\<rparr>"

definition example_router :: virtual_router where
  "example_router = (router_new example_params)\<lparr>vr_primary_ip := ipv4_new 10 0 0 2,
     vr_mac_vlan_interface_v4 := ''fover4-51-9724''\<rparr>"

lemma example_router_fields [simp]:
  "vr_name example_router = ''VR_1''" "vr_vrid example_router = 51" "vr_version example_router = V2"
  "vr_ipv4_addresses example_router = [example_net]" "vr_ipv6_addresses example_router = []"
  "vr_priority example_router = 100" "vr_advert_interval example_router = 1"
  "vr_preempt_mode example_router" "vr_mac_vlan_interface_v4 example_router = ''fover4-51-9724''"
  "vr_mac_vlan_interface_v6 example_router = None" "vr_primary_ip_v6 example_router = None"
  "vr_fsm example_router = default_machine"
  by (simp_all add: example_router_def router_new_def example_params_def Let_def)

lemma example_router_timers_ok [simp]: "timers_ok (example_router\<lparr>vr_fsm := m\<rparr>)" "timers_ok example_router"
  using router_new_timers_ok [of example_params] by (simp_all add: example_router_def timers_ok_def)

lemma example_quiet [simp]: "quiet (example_os now)"
  by (simp add: quiet_def) (simp add: example_os_def)

section \<open>Properties of the timers\<close>

text \<open>C27: The two intervals computed in single precision at construction are exactly the
  formulas of the RFCs: skew (256 - priority) / 256 seconds, scaled by the advertisement
  interval in version 3, and three advertisement intervals plus the skew. Each converts to
  whole nanoseconds without rounding, so setting the master-down timer to either of them never
  panics.\<close>

theorem timers_exact:
  "vr_skew_time (router_new params) =
     (256 - of_nat (unat (par_priority params))) / 256
     * (if par_version params = V3 then of_nat (unat (par_advert_interval params)) else 1)
   \<and> vr_master_down_interval (router_new params) =
     3 * of_nat (unat (par_advert_interval params)) + vr_skew_time (router_new params)
   \<and> (\<forall>interval \<in> {vr_skew_time (router_new params), vr_master_down_interval (router_new params)}.
        (\<exists>n. duration_ns interval = Some n \<and> of_nat n = interval * 1000000000)
        \<and> set_master_down_timer now interval fsm \<noteq> None)"
proof -
  let ?v = "par_version params" and ?p = "par_priority params" and ?a = "par_advert_interval params"
  have ok: "timers_ok (router_new params)" by (rule router_new_timers_ok)
  have fields: "vr_version (router_new params) = ?v" "vr_priority (router_new params) = ?p"
    "vr_advert_interval (router_new params) = ?a"
    by (simp_all add: router_new_def Let_def)
  have s: "vr_skew_time (router_new params) = of_nat (skew_ticks ?v ?p ?a) / 256"
    and d: "timer_value (vr_master_down_interval (router_new params)) (down_ticks ?v ?p ?a)"
    using ok by (simp_all add: timers_ok_def fields timer_value_def)
  have p: "of_nat (256 - unat ?p) = (256 - of_nat (unat ?p) :: rat)"
    using unat_lt_256 [of ?p] by (simp add: of_nat_diff)
  have "vr_skew_time (router_new params) = (256 - of_nat (unat ?p)) / 256
      * (if ?v = V3 then of_nat (unat ?a) else 1)"
    using s p by (cases ?v) simp_all
  moreover have "vr_master_down_interval (router_new params) =
      3 * of_nat (unat ?a) + vr_skew_time (router_new params)"
    using d s by (simp add: timer_value_def down_ticks_def)
  moreover have "(\<exists>n. duration_ns x = Some n \<and> of_nat n = x * 1000000000)
      \<and> set_master_down_timer now x fsm \<noteq> None" if "timer_value x k" for x k
  proof
    have "of_nat (k * 3906250) = x * 1000000000" using that by (simp add: timer_value_def)
    then show "\<exists>n. duration_ns x = Some n \<and> of_nat n = x * 1000000000"
      using duration_timer_value [OF that] by blast
    show "set_master_down_timer now x fsm \<noteq> None"
      using duration_timer_value [OF that] by (simp add: set_master_down_timer_def)
  qed
  then have "\<forall>interval \<in> {vr_skew_time (router_new params), vr_master_down_interval (router_new params)}.
      (\<exists>n. duration_ns interval = Some n \<and> of_nat n = interval * 1000000000)
      \<and> set_master_down_timer now interval fsm \<noteq> None"
    using ok unfolding timers_ok_def by blast
  ultimately show ?thesis by blast
qed

theorem timers_exact_witness:
  "duration_ns (156 / 256) \<noteq> None \<and> set_master_down_timer 0 (3 + 156 / 256) default_machine \<noteq> None"
proof -
  note t = timers_exact [of example_params 0 default_machine]
  have i: "vr_skew_time (router_new example_params) = 156 / 256"
    "vr_master_down_interval (router_new example_params) = 3 + 156 / 256"
    using t by (simp_all add: example_params_def)
  from t show ?thesis unfolding i by blast
qed

end
