(* ===== verification/Protocol.thy ===== *)
theory Protocol
  imports Router
begin

text \<open>
  The VRRP protocol as a pure transition function: what a virtual router of a given priority
  and preemption mode does on an event, an advertisement or an advertisement timeout, in each
  state. A timer command names the timer to start; \<open>fsm_step\<close> executes the transition on a
  router at a given time, with exact numbers. The operations of the observer, of the packet
  handlers and of the timer task are shown to be such steps, through the locale
  \<open>fsm_operation\<close>: everything known about the protocol then holds of all of them.
\<close>

datatype timer_cmd = KeepTimer | StopTimer | StartAdvert | StartDown | StartSkew

datatype stimulus = Raised event | Advert u8 | AdvertTimeout

fun protocol :: "u8 \<Rightarrow> bool \<Rightarrow> state \<Rightarrow> stimulus \<Rightarrow> state \<times> timer_cmd" where
  "protocol prio preempt Init (Raised Startup) =
     (if prio = 255 then (Master, StartAdvert) else (Backup, StartDown))"
| "protocol prio preempt Backup (Raised Shutdown) = (Init, StopTimer)"
| "protocol prio preempt Master (Raised Shutdown) = (Init, StopTimer)"
| "protocol prio preempt Backup (Raised MasterDown) = (Master, StartAdvert)"
| "protocol prio preempt Backup (Advert p) =
     (if p = 0 then (Backup, StartSkew)
      else if \<not> preempt \<or> prio \<le> p then (Backup, StartDown)
      else (Master, StartAdvert))"
| "protocol prio preempt Master (Advert p) =
     (if p = 0 then (Master, StartAdvert)
      else if prio \<le> p then (Backup, StartDown)
      else (Master, KeepTimer))"
| "protocol prio preempt Master AdvertTimeout = (Master, StartAdvert)"
| "protocol prio preempt s _ = (s, KeepTimer)"

section \<open>Executing a step\<close>

text \<open>Timers run for a number of 256ths of a second, 3906250 nanoseconds each.\<close>

definition running :: "timer_type \<Rightarrow> instant \<Rightarrow> nat \<Rightarrow> timer" where
  "running ty now ticks =
     \<lparr>t_type = ty, remaining_time = of_nat ticks / 256, waiting_for = Some (now + ticks * 3906250)\<rparr>"

definition down_of :: "virtual_router \<Rightarrow> nat" where
  "down_of vr = down_ticks (vr_version vr) (vr_priority vr) (vr_advert_interval vr)"

definition skew_of :: "virtual_router \<Rightarrow> nat" where
  "skew_of vr = skew_ticks (vr_version vr) (vr_priority vr) (vr_advert_interval vr)"

definition advert_of :: "virtual_router \<Rightarrow> nat" where
  "advert_of vr = unat (vr_advert_interval vr) * 256"

fun run_cmd :: "instant \<Rightarrow> virtual_router \<Rightarrow> timer_cmd \<Rightarrow> timer \<Rightarrow> timer" where
  "run_cmd now vr KeepTimer t = t"
| "run_cmd now vr StopTimer t = default_timer"
| "run_cmd now vr StartAdvert t = running AdverTimer now (advert_of vr)"
| "run_cmd now vr StartDown t = running MasterDownTimer now (down_of vr)"
| "run_cmd now vr StartSkew t = running MasterDownTimer now (skew_of vr)"

text \<open>
  Nothing reads the \<open>fsm_event\<close> field, and only one branch of the code writes it: the
  abstraction forgets it.
\<close>

definition erase :: "virtual_router \<Rightarrow> virtual_router" where
  "erase vr = vr\<lparr>vr_fsm := (vr_fsm vr)\<lparr>fsm_event := NullEvent\<rparr>\<rparr>"

definition fsm_step :: "instant \<Rightarrow> stimulus \<Rightarrow> virtual_router \<Rightarrow> virtual_router" where
  "fsm_step now i vr =
     (let (s, cmd) = protocol (vr_priority vr) (vr_preempt_mode vr) (fsm_state (vr_fsm vr)) i
      in vr\<lparr>vr_fsm := (vr_fsm vr)\<lparr>fsm_timer := run_cmd now vr cmd (fsm_timer (vr_fsm vr)),
                                   fsm_state := s\<rparr>\<rparr>)"

text \<open>The configured part of a router, which no step touches.\<close>

definition same_config :: "virtual_router \<Rightarrow> virtual_router \<Rightarrow> bool" where
  "same_config vr vr' \<longleftrightarrow> vr'\<lparr>vr_fsm := default_machine\<rparr> = vr\<lparr>vr_fsm := default_machine\<rparr>"

lemma same_config_refl [simp]: "same_config vr vr"
  by (simp add: same_config_def)

lemma same_config_trans: "same_config a b \<Longrightarrow> same_config b c \<Longrightarrow> same_config a c"
  by (simp add: same_config_def)

lemma same_config_update [simp]: "same_config vr (vr\<lparr>vr_fsm := m\<rparr>)"
  by (simp add: same_config_def)

lemma same_config_fields:
  assumes "same_config vr vr'"
  shows "vr_name vr' = vr_name vr" "vr_vrid vr' = vr_vrid vr" "vr_version vr' = vr_version vr"
    "vr_ipv4_addresses vr' = vr_ipv4_addresses vr" "vr_ipv6_addresses vr' = vr_ipv6_addresses vr"
    "vr_priority vr' = vr_priority vr" "vr_skew_time vr' = vr_skew_time vr"
    "vr_advert_interval vr' = vr_advert_interval vr"
    "vr_master_down_interval vr' = vr_master_down_interval vr"
    "vr_preempt_mode vr' = vr_preempt_mode vr"
    "vr_mac_vlan_interface_v4 vr' = vr_mac_vlan_interface_v4 vr"
    "vr_mac_vlan_interface_v6 vr' = vr_mac_vlan_interface_v6 vr"
    "vr_primary_ip vr' = vr_primary_ip vr" "vr_primary_ip_v6 vr' = vr_primary_ip_v6 vr"
    "vr_network_interface vr' = vr_network_interface vr"
proof -
  have "f (vr'\<lparr>vr_fsm := default_machine\<rparr>) = f (vr\<lparr>vr_fsm := default_machine\<rparr>)"
    for f :: "virtual_router \<Rightarrow> 'a"
    using assms by (simp add: same_config_def)
  note this [of vr_name] this [of vr_vrid] this [of vr_version]
    this [of vr_ipv4_addresses] this [of vr_ipv6_addresses] this [of vr_priority]
    this [of vr_skew_time] this [of vr_advert_interval] this [of vr_master_down_interval]
    this [of vr_preempt_mode] this [of vr_mac_vlan_interface_v4]
    this [of vr_mac_vlan_interface_v6] this [of vr_primary_ip] this [of vr_primary_ip_v6]
    this [of vr_network_interface]
  then show "vr_name vr' = vr_name vr" "vr_vrid vr' = vr_vrid vr" "vr_version vr' = vr_version vr"
    "vr_ipv4_addresses vr' = vr_ipv4_addresses vr" "vr_ipv6_addresses vr' = vr_ipv6_addresses vr"
    "vr_priority vr' = vr_priority vr" "vr_skew_time vr' = vr_skew_time vr"
    "vr_advert_interval vr' = vr_advert_interval vr"
    "vr_master_down_interval vr' = vr_master_down_interval vr"
    "vr_preempt_mode vr' = vr_preempt_mode vr"
    "vr_mac_vlan_interface_v4 vr' = vr_mac_vlan_interface_v4 vr"
    "vr_mac_vlan_interface_v6 vr' = vr_mac_vlan_interface_v6 vr"
    "vr_primary_ip vr' = vr_primary_ip vr" "vr_primary_ip_v6 vr' = vr_primary_ip_v6 vr"
    "vr_network_interface vr' = vr_network_interface vr"
    by simp_all
qed

lemma same_config_timers_ok: "same_config vr vr' \<Longrightarrow> timers_ok vr' = timers_ok vr"
  by (simp add: timers_ok_def same_config_fields)

lemma erase_eq:
  assumes "erase vr' = erase vr"
  shows "same_config vr vr'" "fsm_timer (vr_fsm vr') = fsm_timer (vr_fsm vr)"
    "fsm_state (vr_fsm vr') = fsm_state (vr_fsm vr)"
proof -
  have "f (erase vr') = f (erase vr)" for f :: "virtual_router \<Rightarrow> 'a" using assms by simp
  note this [of "\<lambda>v. fsm_timer (vr_fsm v)"] this [of "\<lambda>v. fsm_state (vr_fsm v)"]
  then show "fsm_timer (vr_fsm vr') = fsm_timer (vr_fsm vr)"
    "fsm_state (vr_fsm vr') = fsm_state (vr_fsm vr)" by (simp_all add: erase_def)
  have "(erase vr')\<lparr>vr_fsm := default_machine\<rparr> = (erase vr)\<lparr>vr_fsm := default_machine\<rparr>"
    using assms by simp
  then show "same_config vr vr'" by (simp add: same_config_def erase_def)
qed

lemma same_config_fsm_step [simp]: "same_config vr (fsm_step now i vr)"
  by (simp add: fsm_step_def same_config_def Let_def split: prod.split)

lemma erase_same_config: "erase vr' = erase (fsm_step now i vr) \<Longrightarrow> same_config vr vr'"
  using same_config_trans [of vr "fsm_step now i vr" vr'] erase_eq(1) by simp

section \<open>Facts about the protocol\<close>

lemma fsm_step_state:
  "fsm_state (vr_fsm (fsm_step now i vr)) =
   fst (protocol (vr_priority vr) (vr_preempt_mode vr) (fsm_state (vr_fsm vr)) i)"
  by (simp add: fsm_step_def Let_def split: prod.split)

lemma fsm_step_timer:
  "fsm_timer (vr_fsm (fsm_step now i vr)) =
   run_cmd now vr (snd (protocol (vr_priority vr) (vr_preempt_mode vr) (fsm_state (vr_fsm vr)) i))
     (fsm_timer (vr_fsm vr))"
  by (simp add: fsm_step_def Let_def split: prod.split)

lemma fsm_step_keep:
  "protocol (vr_priority vr) (vr_preempt_mode vr) (fsm_state (vr_fsm vr)) i
     = (fsm_state (vr_fsm vr), KeepTimer) \<Longrightarrow> fsm_step now i vr = vr"
  by (simp add: fsm_step_def)

text \<open>The state and the timer command of a transition go together.\<close>

lemma protocol_cmd:
  assumes "protocol prio preempt s i = (s', cmd)"
  shows "case cmd of
      KeepTimer \<Rightarrow> s' = s
    | StopTimer \<Rightarrow> s' = Init
    | StartAdvert \<Rightarrow> s' = Master
    | StartDown \<Rightarrow> s' = Backup
    | StartSkew \<Rightarrow> s' = Backup"
  using assms
  by (cases "(prio, preempt, s, i)" rule: protocol.cases) (auto split: if_splits)

lemma fsm_step_machine_ok:
  assumes "machine_ok (vr_fsm vr)"
  shows "machine_ok (vr_fsm (fsm_step now i vr))"
proof -
  obtain s' cmd where
    p: "protocol (vr_priority vr) (vr_preempt_mode vr) (fsm_state (vr_fsm vr)) i = (s', cmd)"
    by fastforce
  then show ?thesis
    using assms protocol_cmd [OF p]
    by (cases cmd)
      (auto simp: machine_ok_def fsm_step_state fsm_step_timer running_def default_timer_def)
qed

lemma protocol_Init: "i \<noteq> Raised Startup \<Longrightarrow> protocol prio preempt Init i = (Init, KeepTimer)"
  by (cases "(prio, preempt, Init, i)" rule: protocol.cases) auto

lemma fsm_step_Init:
  "fsm_state (vr_fsm vr) = Init \<Longrightarrow> i \<noteq> Raised Startup \<Longrightarrow> fsm_step now i vr = vr"
  by (simp add: fsm_step_def protocol_Init)

text \<open>A router only becomes Master or stays so by owning the address or by outranking.\<close>

lemma protocol_leaves_Init:
  "fst (protocol prio preempt s i) \<noteq> Init \<Longrightarrow> s \<noteq> Init \<or> i = Raised Startup"
  using protocol_Init by fastforce

section \<open>Operations that are protocol steps\<close>

text \<open>
  What holds of a router between two operations: its intervals are those of its
  configuration, and the timer of its state is running.
\<close>

definition router_ok :: "virtual_router \<Rightarrow> bool" where
  "router_ok vr \<longleftrightarrow> timers_ok vr \<and> machine_ok (vr_fsm vr)"

lemma router_ok_timers: "router_ok vr \<Longrightarrow> timers_ok vr"
  by (simp add: router_ok_def)

lemma router_ok_erase: "erase vr' = erase vr \<Longrightarrow> router_ok vr' = router_ok vr"
  using erase_eq [of vr' vr] same_config_timers_ok [of vr vr'] by (simp add: router_ok_def machine_ok_def)

lemma router_ok_step: "router_ok vr \<Longrightarrow> router_ok (fsm_step now i vr)"
  using same_config_timers_ok [OF same_config_fsm_step] fsm_step_machine_ok by (simp add: router_ok_def)

lemma router_ok_expiring:
  assumes "router_ok vr"
  shows "t_type (fsm_timer (vr_fsm vr)) = MasterDownTimer \<longleftrightarrow> fsm_state (vr_fsm vr) = Backup"
    and "t_type (fsm_timer (vr_fsm vr)) = AdverTimer \<longleftrightarrow> fsm_state (vr_fsm vr) = Master"
    and "waiting_for (fsm_timer (vr_fsm vr)) = None \<longleftrightarrow> fsm_state (vr_fsm vr) = Init"
  using assms by (cases "fsm_state (vr_fsm vr)"; simp add: router_ok_def machine_ok_def)+

text \<open>
  The contract that the observer, the packet handlers and the timer task share: an
  operation on a router leaves it alone or executes a protocol step of one of its stimuli at
  the time of its last effect.
\<close>

locale fsm_operation =
  fixes run :: "os \<Rightarrow> virtual_router \<Rightarrow> trace \<Rightarrow> (virtual_router \<times> trace) option"
    and stimuli :: "virtual_router \<Rightarrow> stimulus set"
  assumes refines: "router_ok vr \<Longrightarrow> run os vr tr = Some (vr', tr') \<Longrightarrow>
      erase vr' = erase vr
      \<or> (\<exists>i \<in> stimuli vr. erase vr' = erase (fsm_step (os_now os tr') i vr))"
begin

lemma keeps_config: "router_ok vr \<Longrightarrow> run os vr tr = Some (vr', tr') \<Longrightarrow> same_config vr vr'"
  using refines erase_eq(1) erase_same_config by blast

lemma keeps_router_ok: "router_ok vr \<Longrightarrow> run os vr tr = Some (vr', tr') \<Longrightarrow> router_ok vr'"
  using refines [of vr os tr vr' tr'] router_ok_erase router_ok_step by metis

lemma keeps_Init:
  assumes "router_ok vr" and "run os vr tr = Some (vr', tr')"
    and "fsm_state (vr_fsm vr) = Init" and "Raised Startup \<notin> stimuli vr"
  shows "erase vr' = erase vr"
  using refines [OF assms(1,2)] assms(3,4) fsm_step_Init by metis

lemma state_change:
  assumes "router_ok vr" and "run os vr tr = Some (vr', tr')"
    and "fsm_state (vr_fsm vr') \<noteq> fsm_state (vr_fsm vr)"
  obtains i where "i \<in> stimuli vr"
    and "fsm_state (vr_fsm vr') =
         fst (protocol (vr_priority vr) (vr_preempt_mode vr) (fsm_state (vr_fsm vr)) i)"
  using refines [OF assms(1,2)] assms(3) erase_eq(3) fsm_step_state by metis

end

text \<open>
  The timer setters of the code, called with a timer field of the router, execute the
  timer commands: single precision and the conversion to nanoseconds are exact.
\<close>

lemma set_timers [fsm_simps]:
  assumes "timers_ok vr"
  shows "set_master_down_timer now (vr_master_down_interval vr) m =
           Some (m\<lparr>fsm_timer := running MasterDownTimer now (down_of vr)\<rparr>)"
    and "set_master_down_timer now (vr_skew_time vr) m =
           Some (m\<lparr>fsm_timer := running MasterDownTimer now (skew_of vr)\<rparr>)"
proof -
  have d: "timer_value (vr_master_down_interval vr) (down_of vr)"
    and s: "timer_value (vr_skew_time vr) (skew_of vr)"
    using assms by (simp_all add: timers_ok_def down_of_def skew_of_def)
  from set_timer_simps(2) [OF d] set_timer_simps(2) [OF s] d s
  show "set_master_down_timer now (vr_master_down_interval vr) m =
           Some (m\<lparr>fsm_timer := running MasterDownTimer now (down_of vr)\<rparr>)"
    and "set_master_down_timer now (vr_skew_time vr) m =
           Some (m\<lparr>fsm_timer := running MasterDownTimer now (skew_of vr)\<rparr>)"
    by (simp_all add: running_def timer_value_def)
qed

lemma set_advert [fsm_simps]:
  "set_advert_timer now (f32_of_u8 (vr_advert_interval vr)) m =
     Some (m\<lparr>fsm_timer := running AdverTimer now (advert_of vr)\<rparr>)"
  using set_timer_simps(1) [OF advert_interval_value [of vr]] advert_interval_value [of vr]
  by (simp add: running_def advert_of_def timer_value_def)

end
