(* ===== verification/Links.thy ===== *)
theory Links
  imports Protocol
begin

text \<open>
  Interfaces and mac-vlans of \<open>src/src/general.rs\<close>: looking an interface up, its primary
  addresses, assigning and removing the virtual addresses, the name and MAC of a mac-vlan,
  and its creation and conditional removal.
\<close>

section \<open>Interfaces\<close>

definition get_interface :: "os \<Rightarrow> string \<Rightarrow> trace \<Rightarrow> net_error + network_interface" where
  "get_interface os name tr =
     (case find (\<lambda>iface. if_name iface = name) (os_interfaces os tr) of
        Some interface \<Rightarrow> Inr interface
      | None \<Rightarrow> Inl (InterfaceNotFound name))"

fun find_map :: "('a \<Rightarrow> 'b option) \<Rightarrow> 'a list \<Rightarrow> 'b option" where
  "find_map f [] = None"
| "find_map f (x # xs) = (case f x of Some y \<Rightarrow> Some y | None \<Rightarrow> find_map f xs)"

definition primary_ipv4 :: "network_interface \<Rightarrow> net_error + u32" where
  "primary_ipv4 interface =
     (case find_map (\<lambda>ip. case ip of IpV4 addr \<Rightarrow> Some addr | IpV6 _ \<Rightarrow> None) (if_ips interface) of
        Some addr \<Rightarrow> Inr addr
      | None \<Rightarrow> Inl (NoIpv4Address (if_name interface)))"

definition primary_ipv6 :: "network_interface \<Rightarrow> u128 option" where
  "primary_ipv6 interface =
     find_map (\<lambda>ip. case ip of
         IpV6 addr \<Rightarrow> if \<not> is_loopback6 addr then Some addr else None
       | IpV4 _ \<Rightarrow> None) (if_ips interface)"

section \<open>Virtual addresses\<close>

fun net_addr :: "ip_net \<Rightarrow> ip_addr" where
  "net_addr (NetV4 n) = IpV4 (addr4 n)"
| "net_addr (NetV6 n) = IpV6 (addr6 n)"

fun net_prefix_len :: "ip_net \<Rightarrow> u8" where
  "net_prefix_len (NetV4 n) = prefix_len4 n"
| "net_prefix_len (NetV6 n) = prefix_len6 n"

text \<open>One netlink request per address; an address that does not parse is skipped.\<close>

fun address_request :: "address_action \<Rightarrow> u32 \<Rightarrow> ip_net \<Rightarrow> effect" where
  "address_request Add index net = AddrAdd index (net_addr net) (net_prefix_len net)"
| "address_request Delete index net = AddrDel index (net_addr net) (net_prefix_len net)"

fun apply_addresses :: "crates \<Rightarrow> address_action \<Rightarrow> u32 \<Rightarrow> string list \<Rightarrow> trace \<Rightarrow> trace" where
  "apply_addresses C action index [] tr = tr"
| "apply_addresses C action index (addr # addrs) tr =
     (case parse_ipnet C addr of
        None \<Rightarrow> apply_addresses C action index addrs tr
      | Some net \<Rightarrow> apply_addresses C action index addrs (tr @ [address_request action index net]))"

text \<open>
  \<open>virtual_address_action\<close> only runs \<open>apply_address_action\<close> to completion; the failure of a
  request is logged and the next address is tried.
\<close>

definition virtual_address_action ::
  "crates \<Rightarrow> os \<Rightarrow> address_action \<Rightarrow> string list \<Rightarrow> string \<Rightarrow> trace \<Rightarrow> trace" where
  "virtual_address_action C os action addrs interface_name tr =
     (case perform os NlConnect tr of
        (Some _, tr) \<Rightarrow> tr
      | (None, tr) \<Rightarrow>
          let found = os_link os tr interface_name; tr = tr @ [LinkGetByName interface_name]
          in case found of
               Inr (Some link) \<Rightarrow> apply_addresses C action (link_index link) addrs tr
             | Inr None \<Rightarrow> tr
             | Inl _ \<Rightarrow> tr)"

section \<open>The name of a mac-vlan\<close>

definition fnv1a_hash :: "string \<Rightarrow> u32" where
  "fnv1a_hash input =
     foldl (\<lambda>hash byte. (hash XOR word_of_nat (of_char byte)) * 0x01000193) 0x811c9dc5 input"

datatype address_family = FamV4 | FamV6

fun name_prefix :: "address_family \<Rightarrow> string" where
  "name_prefix FamV4 = ''fover4''"
| "name_prefix FamV6 = ''fover6''"

fun virtual_mac :: "address_family \<Rightarrow> u8 \<Rightarrow> mac" where
  "virtual_mac FamV4 vid = [0x00, 0x00, 0x5e, 0x00, 0x01, vid]"
| "virtual_mac FamV6 vid = [0x00, 0x00, 0x5e, 0x00, 0x02, vid]"

text \<open>\<open>{}\<close> on an unsigned number, and \<open>{:04x}\<close>: lowercase hexadecimal, padded to four digits.\<close>

definition digit_char :: "nat \<Rightarrow> char" where
  "digit_char d = ''0123456789abcdef'' ! d"

fun show_dec :: "nat \<Rightarrow> string" where
  "show_dec n = (if n < 10 then [digit_char n] else show_dec (n div 10) @ [digit_char (n mod 10)])"

declare show_dec.simps [simp del]

fun show_hex :: "nat \<Rightarrow> string" where
  "show_hex n = (if n < 16 then [digit_char n] else show_hex (n div 16) @ [digit_char (n mod 16)])"

declare show_hex.simps [simp del]

definition show_04x :: "nat \<Rightarrow> string" where
  "show_04x n = (let s = show_hex n in replicate (4 - length s) (CHR ''0'') @ s)"

definition mac_vlan_name :: "string \<Rightarrow> u8 \<Rightarrow> address_family \<Rightarrow> string" where
  "mac_vlan_name parent_ifname vid family =
     (let hash = fnv1a_hash parent_ifname AND 0xFFFF
      in name_prefix family @ ''-'' @ show_dec (unat vid) @ ''-'' @ show_04x (unat hash))"

section \<open>Creating and removing a mac-vlan\<close>

definition ENODEV :: int where "ENODEV = 19"

definition is_no_such_device :: "rtnl_error \<Rightarrow> bool" where
  "is_no_such_device err =
     (case err of NetlinkError code \<Rightarrow> code = Some (- ENODEV) | RequestFailed \<Rightarrow> False)"

lemma is_no_such_device_iff: "is_no_such_device err \<longleftrightarrow> err = NetlinkError (Some (- 19))"
  by (cases err) (simp_all add: is_no_such_device_def ENODEV_def)

definition link_is_mac_vlan :: "link_message \<Rightarrow> bool" where
  "link_is_mac_vlan link =
     list_ex (\<lambda>attr. case attr of
         LinkInfoAttr infos \<Rightarrow> list_ex (\<lambda>info. info = KindMacVlan) infos
       | _ \<Rightarrow> False) (link_attributes link)"

definition link_mac_address :: "link_message \<Rightarrow> bytes option" where
  "link_mac_address link =
     find_map (\<lambda>attr. case attr of LinkAddressAttr mac \<Rightarrow> Some mac | _ \<Rightarrow> None) (link_attributes link)"

definition link_parent_index :: "link_message \<Rightarrow> u32 option" where
  "link_parent_index link =
     find_map (\<lambda>attr. case attr of LinkParentAttr idx \<Rightarrow> Some idx | _ \<Rightarrow> None) (link_attributes link)"

definition mismatch_mac_reason :: string where
  "mismatch_mac_reason = ''its MAC address doesn't match this instance's virtual MAC''"

definition mismatch_parent_reason :: "string \<Rightarrow> string" where
  "mismatch_parent_reason parent_ifname =
     ''it belongs to a different parent interface than '' @ parent_ifname"

definition create_mac_vlan ::
  "os \<Rightarrow> string \<Rightarrow> u8 \<Rightarrow> address_family \<Rightarrow> trace \<Rightarrow> (net_error + string) \<times> trace" where
  "create_mac_vlan os parent_ifname vid family tr =
     (let name = mac_vlan_name parent_ifname vid family;
          vmac = virtual_mac family vid;
          create = (\<lambda>parent_index tr.
            let message = LinkAddMacVlan name parent_index Bridge True vmac;
                failed = os_rtnl os tr message; tr = tr @ [message]
            in case failed of
                 Some source \<Rightarrow> (Inl (MacVlanCreate name source), tr)
               | None \<Rightarrow>
                   (Inr name,
                    if family = FamV4
                    then snd (perform os
                           (FsWrite (''/proc/sys/net/ipv4/conf/'' @ name @ ''/arp_ignore'') ''8'') tr)
                    else tr))
      in case perform os NlConnect tr of
           (Some err, tr) \<Rightarrow> (Inl (NetlinkConnect err), tr)
         | (None, tr) \<Rightarrow>
             let parent = os_link os tr parent_ifname; tr = tr @ [LinkGetByName parent_ifname]
             in case parent of
                  Inl source \<Rightarrow> (Inl (InterfaceLookup parent_ifname source), tr)
                | Inr None \<Rightarrow> (Inl (InterfaceNotFound parent_ifname), tr)
                | Inr (Some parent_link) \<Rightarrow>
                    let parent_index = link_index parent_link;
                        existing = os_link os tr name; tr = tr @ [LinkGetByName name]
                    in case existing of
                         Inr (Some link) \<Rightarrow>
                           (if \<not> link_is_mac_vlan link then Inl (NotMacVlan name)
                            else if link_mac_address link \<noteq> Some vmac
                            then Inl (MacVlanMismatch name mismatch_mac_reason)
                            else if link_parent_index link \<noteq> Some parent_index
                            then Inl (MacVlanMismatch name (mismatch_parent_reason parent_ifname))
                            else Inr name, tr)
                       | Inr None \<Rightarrow> create parent_index tr
                       | Inl err \<Rightarrow>
                           if is_no_such_device err then create parent_index tr
                           else (Inl (InterfaceLookup name err), tr))"

text \<open>
  Counting the addresses left on a link: a link-local IPv6 address ends the scan of its
  message, every other address counts, an error of the dump is returned.
\<close>

fun count_attributes :: "address_attribute list \<Rightarrow> nat \<Rightarrow> nat" where
  "count_attributes [] count = count"
| "count_attributes (OtherAddressAttr # attrs) count = count_attributes attrs count"
| "count_attributes (AddressAttr (IpV4 _) # attrs) count = count_attributes attrs (count + 1)"
| "count_attributes (AddressAttr (IpV6 addr) # attrs) count =
     (if is_unicast_link_local addr then count else count_attributes attrs (count + 1))"

fun count_addresses :: "(rtnl_error + address_message) list \<Rightarrow> nat \<Rightarrow> rtnl_error + nat" where
  "count_addresses [] count = Inr count"
| "count_addresses (Inl err # msgs) count = Inl err"
| "count_addresses (Inr msg # msgs) count = count_addresses msgs (count_attributes msg count)"

definition remaining_address_count :: "os \<Rightarrow> u32 \<Rightarrow> trace \<Rightarrow> (rtnl_error + nat) \<times> trace" where
  "remaining_address_count os index tr =
     (count_addresses (os_addrs os tr index) 0, tr @ [AddrDump index])"

definition delete_mac_vlan :: "os \<Rightarrow> string \<Rightarrow> trace \<Rightarrow> trace" where
  "delete_mac_vlan os name tr =
     (case perform os NlConnect tr of
        (Some _, tr) \<Rightarrow> tr
      | (None, tr) \<Rightarrow>
          let found = os_link os tr name; tr = tr @ [LinkGetByName name]
          in case found of
               Inl _ \<Rightarrow> tr
             | Inr None \<Rightarrow> tr
             | Inr (Some link) \<Rightarrow>
                 let index = link_index link
                 in case remaining_address_count os index tr of
                      (Inl _, tr) \<Rightarrow> tr
                    | (Inr remaining, tr) \<Rightarrow>
                        if remaining = 0 then tr @ [LinkDel index] else tr)"

section \<open>Disciplines the link operations keep\<close>

locale link_discipline = socket_discipline +
  assumes connect: "Q [NlConnect]"
    and lookup: "Q [LinkGetByName name]"
    and addr_add: "Q [AddrAdd index a len]"
    and addr_del: "Q [AddrDel index a len]"
begin

lemma ext_apply_addresses: "extends Q tr (apply_addresses C action index addrs tr)"
proof (induction addrs arbitrary: tr)
  case Nil
  then show ?case by (simp add: ext_refl)
next
  case (Cons addr addrs)
  have "Q [address_request action index net]" for net
    using addr_add addr_del by (cases action) simp_all
  then show ?case
    using Cons.IH ext_trans ext_append by (fastforce split: option.split)
qed

lemma ext_virtual_address_action: "extends Q tr (virtual_address_action C os action addrs name tr)"
proof -
  have c: "extends Q tr (tr @ [NlConnect])" by (rule ext_snoc [OF ext_refl connect])
  have l: "extends Q tr ((tr @ [NlConnect]) @ [LinkGetByName name])" by (rule ext_snoc [OF c lookup])
  have "extends Q tr (apply_addresses C action i addrs ((tr @ [NlConnect]) @ [LinkGetByName name]))" for i
    by (rule ext_trans [OF l ext_apply_addresses])
  with c l show ?thesis
    by (simp add: virtual_address_action_def perform_def Let_def split: option.split sum.split)
qed

end

locale teardown_discipline = link_discipline +
  assumes dump: "Q [AddrDump index]"
    and link_del: "Q [LinkDel index]"
begin

lemma ext_delete_mac_vlan: "extends Q tr (delete_mac_vlan os name tr)"
proof -
  have c: "extends Q tr (tr @ [NlConnect])" by (rule ext_snoc [OF ext_refl connect])
  have l: "extends Q tr ((tr @ [NlConnect]) @ [LinkGetByName name])" by (rule ext_snoc [OF c lookup])
  have d: "extends Q tr (((tr @ [NlConnect]) @ [LinkGetByName name]) @ [AddrDump i])" for i
    by (rule ext_snoc [OF l dump])
  have "extends Q tr ((((tr @ [NlConnect]) @ [LinkGetByName name]) @ [AddrDump i]) @ [LinkDel i])" for i
    by (rule ext_snoc [OF d link_del])
  with c l d show ?thesis
    by (simp add: delete_mac_vlan_def perform_def remaining_address_count_def Let_def
        split: option.split sum.split)
qed

end

interpretation hops_links: teardown_discipline "hops_set False"
  by unfold_locales simp_all

text \<open>Effects that neither create nor remove an interface nor write its settings.\<close>

fun keeps_links :: "effect \<Rightarrow> bool" where
  "keeps_links (LinkAddMacVlan _ _ _ _ _) \<longleftrightarrow> False"
| "keeps_links (LinkDel _) \<longleftrightarrow> False"
| "keeps_links (FsWrite _ _) \<longleftrightarrow> False"
| "keeps_links _ \<longleftrightarrow> True"

lemma list_all_take: "list_all q xs \<Longrightarrow> list_all q (take k xs)"
  by (auto simp: list_all_iff dest: in_set_takeD)

interpretation kept: link_discipline "list_all keeps_links"
  by unfold_locales
    (simp_all add: list_all_take vrrp_conv_v4_def vrrp_setup_v4_def vrrp_conv_v6_def
      vrrp_setup_v6_def arp_conv_def na_conv_def)

section \<open>Assigning the virtual addresses\<close>

context ip_text
begin

lemma apply_shown_v4:
  "list_all net_ok4 nets \<Longrightarrow>
   apply_addresses C action index (map (show_ipv4_net C) nets) tr =
   tr @ map (\<lambda>net. address_request action index (NetV4 net)) nets"
  by (induction nets arbitrary: tr) (simp_all add: parse_show4)

lemma apply_shown_v6:
  "list_all net_ok6 nets \<Longrightarrow>
   apply_addresses C action index (map (show_ipv6_net C) nets) tr =
   tr @ map (\<lambda>net. address_request action index (NetV6 net)) nets"
  by (induction nets arbitrary: tr) (simp_all add: parse_show6)

end

text \<open>
  The address requests of a trace; sockets make none, and netlink sends no packets.
\<close>

fun addr_request :: "effect \<Rightarrow> bool" where
  "addr_request (AddrAdd _ _ _) \<longleftrightarrow> True"
| "addr_request (AddrDel _ _ _) \<longleftrightarrow> True"
| "addr_request _ \<longleftrightarrow> False"

definition addr_requests :: "trace \<Rightarrow> trace" where
  "addr_requests tr = [e \<leftarrow> tr. addr_request e]"

lemma addr_requests_append [simp]: "addr_requests (xs @ ys) = addr_requests xs @ addr_requests ys"
  by (simp add: addr_requests_def)

lemma addr_requests_Nil [simp]: "addr_requests [] = []"
  by (simp add: addr_requests_def)

lemma addr_requests_Cons [simp]:
  "addr_requests (e # es) = (if addr_request e then e # addr_requests es else addr_requests es)"
  by (simp add: addr_requests_def)

interpretation sock: socket_discipline "list_all (\<lambda>e. \<not> addr_request e)"
  by unfold_locales
    (simp_all add: list_all_take vrrp_conv_v4_def vrrp_setup_v4_def vrrp_conv_v6_def
      vrrp_setup_v6_def arp_conv_def na_conv_def)

lemma addr_requests_sock:
  "extends (list_all (\<lambda>e. \<not> addr_request e)) tr tr' \<Longrightarrow> addr_requests tr' = addr_requests tr"
  by (auto simp: extends_def addr_requests_def list_all_iff filter_empty_conv)

lemma payloads_apply_addresses [simp]: "payloads (apply_addresses C action index addrs tr) = payloads tr"
proof (induction addrs arbitrary: tr)
  case Nil
  then show ?case by simp
next
  case (Cons addr addrs)
  have "payloads [address_request action index net] = []" for net
    by (cases action) simp_all
  with Cons show ?case by (simp split: option.split)
qed

lemma payloads_virtual_address_action [simp]:
  "payloads (virtual_address_action C os action addrs name tr) = payloads tr"
  by (simp add: virtual_address_action_def perform_def Let_def split: option.split sum.split)

lemma virtual_address_action_found:
  assumes "os_io os tr NlConnect = None" and "os_link os (tr @ [NlConnect]) name = Inr (Some link)"
  shows "virtual_address_action C os action addrs name tr =
         apply_addresses C action (link_index link) addrs (tr @ [NlConnect, LinkGetByName name])"
  using assms by (simp add: virtual_address_action_def perform_def)

text \<open>
  The links are settled from some moment on: no request is refused any more, and every name is
  looked up with the answer that \<open>base\<close> gives at its beginning. What happened before that
  moment is left open, so a mac-vlan may have been created in it.
\<close>

definition settled :: "os \<Rightarrow> os \<Rightarrow> trace \<Rightarrow> bool" where
  "settled base os tr \<longleftrightarrow>
     (\<forall>es. (\<forall>e. os_io os (tr @ es) e = None \<and> os_rtnl os (tr @ es) e = None)
         \<and> (\<forall>name. os_link os (tr @ es) name = os_link base [] name))"

lemma settled_answers:
  assumes "settled base os tr"
  shows "os_io os tr e = None" "os_link os (tr @ es) name = os_link base [] name"
  using assms [unfolded settled_def, rule_format, of "[]"] assms [unfolded settled_def, rule_format, of es]
  by simp_all

lemma settled_extends:
  assumes "extends Q tr tr'" and "settled base os tr"
  shows "settled base os tr'"
proof -
  obtain xs where tr': "tr' = tr @ xs" using assms(1) by (auto simp: extends_def)
  have "(\<forall>e. os_io os (tr @ xs @ es) e = None \<and> os_rtnl os (tr @ xs @ es) e = None)
      \<and> (\<forall>name. os_link os (tr @ xs @ es) name = os_link base [] name)" for es
    using assms(2) [unfolded settled_def, rule_format, of "xs @ es"] by simp
  then show ?thesis by (simp add: settled_def tr')
qed

section \<open>The name of a mac-vlan: length and distinctness\<close>

definition digit_value :: "char \<Rightarrow> nat" where
  "digit_value c = (if of_char c < (58 :: nat) then of_char c - 48 else of_char c - 87)"

definition numeral_value :: "nat \<Rightarrow> string \<Rightarrow> nat" where
  "numeral_value base s = foldl (\<lambda>n c. n * base + digit_value c) 0 s"

lemma less_16_cases: "(d :: nat) < 16 \<Longrightarrow> d \<in> {0, 1, 2, 3, 4, 5, 6, 7, 8, 9, 10, 11, 12, 13, 14, 15}"
  by simp presburger

lemma digit_char_facts:
  assumes "d < 16"
  shows "digit_value (digit_char d) = d" "digit_char d \<noteq> CHR 0x00"
  using less_16_cases [OF assms] by (auto simp: digit_char_def digit_value_def)

lemma numeral_value_snoc [simp]:
  "numeral_value base (s @ [c]) = numeral_value base s * base + digit_value c"
  by (simp add: numeral_value_def)

lemma show_dec_value: "numeral_value 10 (show_dec n) = n"
proof (induction n rule: show_dec.induct)
  case (1 n)
  then show ?case
    by (subst show_dec.simps) (auto simp: digit_char_facts numeral_value_def)
qed

lemma show_hex_value: "numeral_value 16 (show_hex n) = n"
proof (induction n rule: show_hex.induct)
  case (1 n)
  then show ?case
    by (subst show_hex.simps) (auto simp: digit_char_facts numeral_value_def)
qed

lemma show_04x_value: "numeral_value 16 (show_04x n) = n"
proof -
  have "foldl (\<lambda>n c. n * 16 + digit_value c) 0 (replicate k (CHR ''0'') @ s)
        = foldl (\<lambda>n c. n * 16 + digit_value c) 0 s" for k s
    by (induction k) (simp_all add: digit_value_def)
  then show ?thesis
    using show_hex_value [of n] by (simp add: show_04x_def Let_def numeral_value_def)
qed

lemma show_dec_inj: "show_dec m = show_dec n \<longleftrightarrow> m = n"
  by (metis show_dec_value)

lemma show_04x_inj: "show_04x m = show_04x n \<longleftrightarrow> m = n"
  by (metis show_04x_value)

lemma length_show_dec: "n < 10 ^ Suc k \<Longrightarrow> length (show_dec n) \<le> Suc k"
proof (induction k arbitrary: n)
  case 0
  then show ?case by (simp add: show_dec.simps)
next
  case (Suc k)
  then have "n div 10 < 10 ^ Suc k" by (simp add: less_mult_imp_div_less)
  from Suc.IH [OF this] show ?case by (subst show_dec.simps) simp
qed

lemma length_show_hex: "n < 16 ^ Suc k \<Longrightarrow> length (show_hex n) \<le> Suc k"
proof (induction k arbitrary: n)
  case 0
  then show ?case by (simp add: show_hex.simps)
next
  case (Suc k)
  then have "n div 16 < 16 ^ Suc k" by (simp add: less_mult_imp_div_less)
  from Suc.IH [OF this] show ?case by (subst show_hex.simps) simp
qed

lemma length_show_04x: "n < 65536 \<Longrightarrow> length (show_04x n) = 4"
  using length_show_hex [of n 3] by (simp add: show_04x_def Let_def)

lemma show_dec_no_nul: "CHR 0x00 \<notin> set (show_dec n)"
proof (induction n rule: show_dec.induct)
  case (1 n)
  have "n mod 10 < 16" by (rule less_trans [of _ 10]) simp_all
  with 1 show ?case
    using digit_char_facts(2) [of n] digit_char_facts(2) [of "n mod 10"]
    by (subst show_dec.simps) auto
qed

lemma show_hex_no_nul: "CHR 0x00 \<notin> set (show_hex n)"
proof (induction n rule: show_hex.induct)
  case (1 n)
  then show ?case
    using digit_char_facts(2) [of n] digit_char_facts(2) [of "n mod 16"]
    by (subst show_hex.simps) auto
qed

text \<open>The 16 bits of the parent's name that go into the name.\<close>

definition name_hash :: "string \<Rightarrow> nat" where
  "name_hash parent_ifname = unat (fnv1a_hash parent_ifname AND 0xFFFF)"

lemma name_hash_bound: "name_hash parent_ifname < 65536"
proof -
  have "(0xFFFF :: u32) = mask 16" by (simp add: mask_eq_exp_minus_1)
  then have "fnv1a_hash parent_ifname AND 0xFFFF = take_bit 16 (fnv1a_hash parent_ifname)"
    by (simp only: take_bit_eq_mask)
  then show ?thesis
    by (simp add: name_hash_def take_bit_eq_mod unat_mod_distrib)
qed

lemma mac_vlan_name_eq:
  "mac_vlan_name parent_ifname vid family =
   name_prefix family @ ''-'' @ show_dec (unat vid) @ ''-'' @ show_04x (name_hash parent_ifname)"
  by (simp add: mac_vlan_name_def name_hash_def Let_def)

lemma length_name_prefix [simp]: "length (name_prefix family) = 6"
  by (cases family) simp_all

lemma mac_vlan_name_length: "length (mac_vlan_name parent_ifname vid family) \<le> 15"
  using length_show_dec [of "unat vid" 2] unat_lt_256 [of vid] length_show_04x [OF name_hash_bound]
  by (simp add: mac_vlan_name_eq)

lemma mac_vlan_name_no_nul: "CHR 0x00 \<notin> set (mac_vlan_name parent_ifname vid family)"
  using show_dec_no_nul [of "unat vid"] show_hex_no_nul [of "name_hash parent_ifname"]
  by (cases family) (auto simp: mac_vlan_name_eq show_04x_def Let_def)

lemma mac_vlan_name_cong:
  "mac_vlan_name p vid family = mac_vlan_name p' vid' family' \<longleftrightarrow>
   family = family' \<and> vid = vid' \<and> name_hash p = name_hash p'"
proof
  assume eq: "mac_vlan_name p vid family = mac_vlan_name p' vid' family'"
  then have pre: "name_prefix family = name_prefix family'"
    and rest: "show_dec (unat vid) @ ''-'' @ show_04x (name_hash p)
             = show_dec (unat vid') @ ''-'' @ show_04x (name_hash p')"
    by (simp_all add: mac_vlan_name_eq append_eq_append_conv)
  have "length (show_04x (name_hash p)) = length (show_04x (name_hash p'))"
    by (simp add: length_show_04x name_hash_bound)
  then have "show_dec (unat vid) = show_dec (unat vid')"
    "show_04x (name_hash p) = show_04x (name_hash p')"
    using rest by (auto simp: append_eq_append_conv dest!: arg_cong [where f = length])
  then show "family = family' \<and> vid = vid' \<and> name_hash p = name_hash p'"
    using pre by (cases family; cases family') (simp_all add: show_dec_inj show_04x_inj word_unat_eq_iff)
qed (simp add: mac_vlan_name_eq)

section \<open>What creation and removal promise\<close>

text \<open>
  Creation succeeds in two ways only. Either the name is taken by a mac-vlan with this
  instance's virtual MAC on the same parent, which is reused without touching it; or no such
  device exists and one is added.
\<close>

definition reusable :: "link_message \<Rightarrow> mac \<Rightarrow> u32 \<Rightarrow> bool" where
  "reusable link vmac parent_index \<longleftrightarrow>
     link_is_mac_vlan link \<and> link_mac_address link = Some vmac
     \<and> link_parent_index link = Some parent_index"

definition create_lookups :: "string \<Rightarrow> string \<Rightarrow> trace" where
  "create_lookups parent_ifname name = [NlConnect, LinkGetByName parent_ifname, LinkGetByName name]"

definition create_requests :: "string \<Rightarrow> u32 \<Rightarrow> mac \<Rightarrow> address_family \<Rightarrow> trace" where
  "create_requests name parent_index vmac family =
     LinkAddMacVlan name parent_index Bridge True vmac
     # (if family = FamV4 then [FsWrite (''/proc/sys/net/ipv4/conf/'' @ name @ ''/arp_ignore'') ''8'']
        else [])"

lemma create_mac_vlan_cases:
  assumes "create_mac_vlan os parent_ifname vid family tr = (Inr n, tr')"
  obtains (reused) parent link where
      "os_link os (tr @ [NlConnect]) parent_ifname = Inr (Some parent)"
      "os_link os (tr @ [NlConnect, LinkGetByName parent_ifname]) n = Inr (Some link)"
      "reusable link (virtual_mac family vid) (link_index parent)"
      "n = mac_vlan_name parent_ifname vid family"
      "tr' = tr @ create_lookups parent_ifname n"
    | (created) parent where
      "os_link os (tr @ [NlConnect]) parent_ifname = Inr (Some parent)"
      "os_link os (tr @ [NlConnect, LinkGetByName parent_ifname]) n = Inr None
       \<or> (\<exists>err. os_link os (tr @ [NlConnect, LinkGetByName parent_ifname]) n = Inl err
                \<and> is_no_such_device err)"
      "n = mac_vlan_name parent_ifname vid family"
      "os_rtnl os (tr @ create_lookups parent_ifname n)
         (LinkAddMacVlan n (link_index parent) Bridge True (virtual_mac family vid)) = None"
      "tr' = tr @ create_lookups parent_ifname n
                @ create_requests n (link_index parent) (virtual_mac family vid) family"
proof -
  let ?n = "mac_vlan_name parent_ifname vid family"
  let ?tr = "tr @ [NlConnect, LinkGetByName parent_ifname]"
  from assms obtain parent where parent: "os_link os (tr @ [NlConnect]) parent_ifname = Inr (Some parent)"
    by (auto simp: create_mac_vlan_def perform_def Let_def split: option.splits sum.splits)
  note unfold = create_mac_vlan_def perform_def Let_def create_lookups_def create_requests_def
  consider (found) link where "os_link os ?tr ?n = Inr (Some link)"
    | (absent) "os_link os ?tr ?n = Inr None"
    | (failed) err where "os_link os ?tr ?n = Inl err"
    by (metis option.exhaust sum.exhaust)
  then show ?thesis
  proof cases
    case found
    with assms parent show ?thesis
      by (intro reused [of parent link])
        (auto simp: unfold reusable_def split: option.splits if_splits)
  next
    case absent
    with assms parent show ?thesis
      by (intro created [of parent]) (auto simp: unfold split: option.splits if_splits)
  next
    case failed
    with assms parent show ?thesis
      by (intro created [of parent]) (auto simp: unfold split: option.splits if_splits)
  qed
qed

text \<open>
  A message of the address dump does not stand in the way of removal when its first address,
  if it has one, is a link-local IPv6 address.
\<close>

definition first_address :: "address_attribute list \<Rightarrow> ip_addr option" where
  "first_address msg =
     find_map (\<lambda>attr. case attr of AddressAttr a \<Rightarrow> Some a | OtherAddressAttr \<Rightarrow> None) msg"

definition unused_message :: "rtnl_error + address_message \<Rightarrow> bool" where
  "unused_message m =
     (case m of
        Inl _ \<Rightarrow> False
      | Inr msg \<Rightarrow>
          (case first_address msg of
             None \<Rightarrow> True
           | Some (IpV4 _) \<Rightarrow> False
           | Some (IpV6 a) \<Rightarrow> is_unicast_link_local a))"

lemma count_attributes_ge: "count \<le> count_attributes msg count"
  by (induction msg count rule: count_attributes.induct) auto

lemma count_attributes_zero: "count_attributes msg 0 = 0 \<longleftrightarrow> unused_message (Inr msg)"
proof (induction msg)
  case Nil
  then show ?case by (simp add: unused_message_def first_address_def)
next
  case (Cons attr msg)
  have "count_attributes msg (Suc 0) \<noteq> 0"
    using count_attributes_ge [of "Suc 0" msg] by simp
  with Cons show ?case
    by (cases attr; simp split: ip_addr.split)
      (auto simp: unused_message_def first_address_def split: ip_addr.split)
qed

lemma count_addresses_ge: "count_addresses dump count = Inr n \<Longrightarrow> count \<le> n"
  by (induction dump count rule: count_addresses.induct) (auto intro: le_trans count_attributes_ge)

lemma count_addresses_zero: "count_addresses dump 0 = Inr 0 \<longleftrightarrow> list_all unused_message dump"
proof (induction dump)
  case Nil
  then show ?case by simp
next
  case (Cons m dump)
  then show ?case
  proof (cases m)
    case (Inl err)
    then show ?thesis by (simp add: unused_message_def)
  next
    case (Inr msg)
    show ?thesis
    proof (cases "count_attributes msg 0 = 0")
      case True
      then have "unused_message (Inr msg)" by (simp only: count_attributes_zero)
      with Inr Cons True show ?thesis by simp
    next
      case False
      then have "count_addresses dump (count_attributes msg 0) \<noteq> Inr 0"
        using count_addresses_ge [of dump "count_attributes msg 0" 0] by auto
      with Inr False show ?thesis by (simp add: count_attributes_zero)
    qed
  qed
qed

lemma delete_mac_vlan_removes:
  "(\<exists>i. LinkDel i \<in> set es) \<and> delete_mac_vlan os name tr = tr @ es \<longleftrightarrow>
   (\<exists>link. os_io os tr NlConnect = None
      \<and> os_link os (tr @ [NlConnect]) name = Inr (Some link)
      \<and> list_all unused_message (os_addrs os (tr @ [NlConnect, LinkGetByName name]) (link_index link))
      \<and> es = [NlConnect, LinkGetByName name, AddrDump (link_index link), LinkDel (link_index link)])"
  by (auto simp: delete_mac_vlan_def perform_def remaining_address_count_def Let_def
      count_addresses_zero [symmetric] split: option.splits sum.splits if_splits)

section \<open>Properties of the mac-vlans\<close>

text \<open>C31: The name of a mac-vlan always fits the kernel's limit of 15 characters for
  interface names and has no NUL, whatever the name of the parent interface. Two names are the
  same exactly when the VRID, the address family and the 16-bit hash of the parent's name are
  the same. So mac-vlans of one parent share a name exactly when VRID and family agree, which
  is how a version 2 and a version 3 instance of one VRID come to share the IPv4 mac-vlan; and
  mac-vlans of different parents can collide only through the hash.\<close>

theorem mac_vlan_names:
  "length (mac_vlan_name p vid family) \<le> 15 \<and> CHR 0x00 \<notin> set (mac_vlan_name p vid family)
   \<and> (mac_vlan_name p vid family = mac_vlan_name p' vid' family' \<longleftrightarrow>
        vid = vid' \<and> family = family'
        \<and> unat (fnv1a_hash p AND 0xFFFF) = unat (fnv1a_hash p' AND 0xFFFF))"
  unfolding mac_vlan_name_cong name_hash_def
  using mac_vlan_name_length mac_vlan_name_no_nul by blast

text \<open>C29: When the creation of a mac-vlan succeeds, the parent was found and
  the name is the one computed. Either the name was taken and reused untouched, which needs a
  mac-vlan with this instance's virtual MAC on this parent; or the lookup of the name said that
  there is no such device (an empty answer or the error ENODEV, no other error), and exactly
  one link is added on the parent, in bridge mode, up and with that MAC, after which, for IPv4,
  the kernel's ARP replies on it are turned off. In particular no foreign interface is ever
  taken over or changed.\<close>

theorem create_mac_vlan_contract:
  assumes "create_mac_vlan os parent_ifname vid family tr = (Inr n, tr')"
  shows "n = mac_vlan_name parent_ifname vid family
    \<and> (\<exists>parent. os_link os (tr @ [NlConnect]) parent_ifname = Inr (Some parent)
        \<and> ((\<exists>link. os_link os (tr @ [NlConnect, LinkGetByName parent_ifname]) n = Inr (Some link)
              \<and> link_is_mac_vlan link \<and> link_mac_address link = Some (virtual_mac family vid)
              \<and> link_parent_index link = Some (link_index parent)
              \<and> tr' = tr @ [NlConnect, LinkGetByName parent_ifname, LinkGetByName n])
          \<or> (os_link os (tr @ [NlConnect, LinkGetByName parent_ifname]) n
                \<in> {Inr None, Inl (NetlinkError (Some (- 19)))}
              \<and> os_rtnl os (tr @ [NlConnect, LinkGetByName parent_ifname, LinkGetByName n])
                  (LinkAddMacVlan n (link_index parent) Bridge True (virtual_mac family vid)) = None
              \<and> tr' = tr @ [NlConnect, LinkGetByName parent_ifname, LinkGetByName n,
                            LinkAddMacVlan n (link_index parent) Bridge True (virtual_mac family vid)]
                        @ (if family = FamV4
                           then [FsWrite (''/proc/sys/net/ipv4/conf/'' @ n @ ''/arp_ignore'') ''8'']
                           else []))))"
  using assms
proof (cases rule: create_mac_vlan_cases)
  case (reused parent link)
  then show ?thesis by (auto simp: reusable_def create_lookups_def)
next
  case (created parent)
  from created(2) have "os_link os (tr @ [NlConnect, LinkGetByName parent_ifname]) n
      \<in> {Inr None, Inl (NetlinkError (Some (- 19)))}"
    by (auto simp: is_no_such_device_iff)
  with created show ?thesis by (auto simp: create_lookups_def create_requests_def)
qed

lemma example_name: "mac_vlan_name ''eth0'' 51 FamV4 = ''fover4-51-9724''"
proof -
  have "fnv1a_hash ''eth0'' AND 0xFFFF = 0x9724"
    by (simp add: fnv1a_hash_def)
  then show ?thesis
    by (simp add: mac_vlan_name_def show_04x_def show_dec.simps show_hex.simps digit_char_def)
qed

lemma example_create:
  "create_mac_vlan (example_os now) ''eth0'' 51 FamV4 tr = (Inr ''fover4-51-9724'',
     tr @ [NlConnect, LinkGetByName ''eth0'', LinkGetByName ''fover4-51-9724''])"
  by (simp add: create_mac_vlan_def perform_def example_name Let_def)
    (simp add: example_os_def example_link_def link_is_mac_vlan_def link_mac_address_def
      link_parent_index_def example_mac_def)

lemma fresh_create:
  "create_mac_vlan (fresh_os now) ''eth0'' 51 FamV4 [] = (Inr ''fover4-51-9724'',
     [NlConnect, LinkGetByName ''eth0'', LinkGetByName ''fover4-51-9724'',
      LinkAddMacVlan ''fover4-51-9724'' 2 Bridge True example_mac,
      FsWrite ''/proc/sys/net/ipv4/conf/fover4-51-9724/arp_ignore'' ''8''])"
  by (simp add: create_mac_vlan_def perform_def example_name Let_def)
    (simp add: fresh_os_def example_os_def link_added_def is_no_such_device_iff example_mac_def)

theorem create_mac_vlan_contract_witness:
  "''fover4-51-9724'' = mac_vlan_name ''eth0'' 51 FamV4
   \<and> os_link (fresh_os 0) [NlConnect, LinkGetByName ''eth0''] ''fover4-51-9724''
       \<in> {Inr None, Inl (NetlinkError (Some (- 19)))}"
proof
  show "''fover4-51-9724'' = mac_vlan_name ''eth0'' 51 FamV4"
    by (rule create_mac_vlan_contract [OF example_create, THEN conjunct1])
  show "os_link (fresh_os 0) [NlConnect, LinkGetByName ''eth0''] ''fover4-51-9724''
       \<in> {Inr None, Inl (NetlinkError (Some (- 19)))}"
    using create_mac_vlan_contract [OF fresh_create [of 0]] by auto
qed

text \<open>C30: A mac-vlan is removed exactly when the connection works, the link
  is found and every message of its address dump is unused: no error, and its first address,
  if any, a link-local IPv6 address. Otherwise the link stays, so an instance never takes the
  addresses of another instance down with it.\<close>

theorem delete_mac_vlan_contract:
  "(\<exists>i. LinkDel i \<in> set es) \<and> delete_mac_vlan os name tr = tr @ es \<longleftrightarrow>
   (\<exists>link. os_io os tr NlConnect = None
      \<and> os_link os (tr @ [NlConnect]) name = Inr (Some link)
      \<and> list_all unused_message (os_addrs os (tr @ [NlConnect, LinkGetByName name]) (link_index link))
      \<and> es = [NlConnect, LinkGetByName name, AddrDump (link_index link), LinkDel (link_index link)])"
  by (rule delete_mac_vlan_removes)

end
