(* ===== verification/Observer.thy ===== *)
theory Observer
  imports Links
begin

text \<open>
  The event observer of \<open>src/src/observer.rs\<close>: what Startup, Shutdown and MasterDown do to the
  router behind the mutex. \<open>notify_mut\<close> works on the guarded router; \<open>notify\<close> takes the lock
  first, which fails once a thread has panicked while holding it (\<open>poisoned\<close>).

  The result of an operation that may panic is \<open>None\<close> for the panic. The router is then as it was,
  because no change of it comes before the panic, and \<open>panic_requests\<close> are the requests made
  until then; \<open>System\<close> records both.
\<close>

record router_mutex =
  guarded :: virtual_router
  poisoned :: bool

definition v6_interface_mac :: "os \<Rightarrow> virtual_router \<Rightarrow> trace \<Rightarrow> mac option" where
  "v6_interface_mac os vr tr = do {
     name \<leftarrow> vr_mac_vlan_interface_v6 vr;
     interface \<leftarrow> (case get_interface os name tr of Inl _ \<Rightarrow> None | Inr i \<Rightarrow> Some i);
     if_mac interface
   }"

definition add_virtual_addresses :: "crates \<Rightarrow> os \<Rightarrow> virtual_router \<Rightarrow> trace \<Rightarrow> trace" where
  "add_virtual_addresses C os vr tr =
     (let tr = virtual_address_action C os Add (str_ipv4_addresses C vr) (vr_mac_vlan_interface_v4 vr) tr
      in case vr_mac_vlan_interface_v6 vr of
           Some v6_iface \<Rightarrow> virtual_address_action C os Add (str_ipv6_addresses C vr) v6_iface tr
         | None \<Rightarrow> tr)"

definition delete_virtual_addresses :: "crates \<Rightarrow> os \<Rightarrow> virtual_router \<Rightarrow> trace \<Rightarrow> trace" where
  "delete_virtual_addresses C os vr tr =
     (let tr = virtual_address_action C os Delete (str_ipv4_addresses C vr) (vr_mac_vlan_interface_v4 vr) tr
      in case vr_mac_vlan_interface_v6 vr of
           Some v6_iface \<Rightarrow> virtual_address_action C os Delete (str_ipv6_addresses C vr) v6_iface tr
         | None \<Rightarrow> tr)"

definition announce_ownership :: "crates \<Rightarrow> os \<Rightarrow> virtual_router \<Rightarrow> mac \<Rightarrow> trace \<Rightarrow> trace option" where
  "announce_ownership C os vr v4_mac tr =
     (let tr = send_gratuitous_arps os vr v4_mac tr
      in case v6_interface_mac os vr tr of
           Some v6_mac \<Rightarrow> send_neighbor_advertisements C os vr v6_mac tr
         | None \<Rightarrow> Some tr)"

definition notify_mut ::
  "crates \<Rightarrow> os \<Rightarrow> virtual_router \<Rightarrow> event \<Rightarrow> trace \<Rightarrow>
   ((net_error + unit) \<times> virtual_router \<times> trace) option" where
  "notify_mut C os vr event tr =
     (case get_interface os (vr_mac_vlan_interface_v4 vr) tr of
        Inl err \<Rightarrow> Some (Inl err, vr, tr)
      | Inr interface \<Rightarrow>
          if event = Startup \<and> fsm_state (vr_fsm vr) = Init then
            (if vr_priority vr = 255 then do {
               tr \<leftarrow> send_advertisement C os vr tr;
               mac \<leftarrow> if_mac interface;
               tr \<leftarrow> announce_ownership C os vr mac tr;
               let tr = add_virtual_addresses C os vr tr;
                   advert_time = f32_of_u8 (vr_advert_interval vr)
               in do {
                 fsm \<leftarrow> set_advert_timer (os_now os tr) advert_time (vr_fsm vr);
                 Some (Inr (), vr\<lparr>vr_fsm := fsm\<lparr>fsm_state := Master\<rparr>\<rparr>, tr)
               }
             } else
               let tr = delete_virtual_addresses C os vr tr;
                   m_down_interval = vr_master_down_interval vr
               in do {
                 fsm \<leftarrow> set_master_down_timer (os_now os tr) m_down_interval (vr_fsm vr);
                 Some (Inr (), vr\<lparr>vr_fsm := fsm\<lparr>fsm_state := Backup\<rparr>\<rparr>, tr)
               })
          else if event = Shutdown then do {
            (vr, tr) \<leftarrow> (case fsm_state (vr_fsm vr) of
                Backup \<Rightarrow> Some (vr\<lparr>vr_fsm := (disable_timer (vr_fsm vr))\<lparr>fsm_state := Init\<rparr>\<rparr>, tr)
              | Master \<Rightarrow>
                  let vr = vr\<lparr>vr_fsm := disable_timer (vr_fsm vr)\<rparr> in do {
                    tr \<leftarrow> send_advertisement C os vr tr;
                    let tr = delete_virtual_addresses C os vr tr
                    in Some (vr\<lparr>vr_fsm := (vr_fsm vr)\<lparr>fsm_state := Init\<rparr>\<rparr>, tr)
                  }
              | Init \<Rightarrow> Some (vr, tr));
            let tr = delete_mac_vlan os (vr_mac_vlan_interface_v4 vr) tr;
                tr = (case vr_mac_vlan_interface_v6 vr of
                        Some v6_iface \<Rightarrow> delete_mac_vlan os v6_iface tr
                      | None \<Rightarrow> tr)
            in Some (Inr (), vr, tr)
          }
          else if event = MasterDown \<and> fsm_state (vr_fsm vr) = Backup then do {
            tr \<leftarrow> send_advertisement C os vr tr;
            mac \<leftarrow> if_mac interface;
            tr \<leftarrow> announce_ownership C os vr mac tr;
            let tr = add_virtual_addresses C os vr tr;
                advert_interval = f32_of_u8 (vr_advert_interval vr)
            in do {
              fsm \<leftarrow> set_advert_timer (os_now os tr) advert_interval (vr_fsm vr);
              Some (Inr (), vr\<lparr>vr_fsm := fsm\<lparr>fsm_state := Master\<rparr>\<rparr>, tr)
            }
          }
          else Some (Inr (), vr, tr))"

text \<open>
  The requests \<open>notify_mut\<close> has made when it panics. It panics only where it unwraps the MAC
  address of the mac-vlan on the way to Master (\<open>notify_mut_panic_iff\<close>); the advertisement has
  gone out by then, and nothing else.
\<close>

definition panic_requests :: "crates \<Rightarrow> os \<Rightarrow> virtual_router \<Rightarrow> trace \<Rightarrow> trace" where
  "panic_requests C os vr tr =
     (case send_advertisement C os vr tr of Some sent \<Rightarrow> sent | None \<Rightarrow> tr)"

definition notify ::
  "crates \<Rightarrow> os \<Rightarrow> router_mutex \<Rightarrow> event \<Rightarrow> trace \<Rightarrow>
   ((net_error + unit) \<times> router_mutex \<times> trace) option" where
  "notify C os mx event tr =
     (if poisoned mx then Some (Inl LockPoisoned, mx, tr)
      else do {
        (r, vr, tr) \<leftarrow> notify_mut C os (guarded mx) event tr;
        Some (r, mx\<lparr>guarded := vr\<rparr>, tr)
      })"

section \<open>The observer executes the protocol\<close>

lemma notify_mut_no_interface:
  "get_interface os (vr_mac_vlan_interface_v4 vr) tr = Inl err \<Longrightarrow>
   notify_mut C os vr ev tr = Some (Inl err, vr, tr)"
  by (simp add: notify_mut_def)

lemma notify_mut_error: "notify_mut C os vr ev tr = Some (Inl err, vr', tr') \<Longrightarrow> vr' = vr \<and> tr' = tr"
  by (auto simp: notify_mut_def Let_def bind_eq_Some_conv split: sum.splits if_splits)

lemma notify_mut_step:
  assumes "timers_ok vr" and "notify_mut C os vr ev tr = Some (Inr u, vr', tr')"
  shows "vr' = fsm_step (os_now os tr') (Raised ev) vr"
proof -
  from assms(2) obtain i where i: "get_interface os (vr_mac_vlan_interface_v4 vr) tr = Inr i"
    by (auto simp: notify_mut_def split: sum.splits)
  note step = fsm_step_def running_def default_timer_def disable_timer_def
  show ?thesis
  proof (cases ev)
    case Startup
    show ?thesis
    proof (cases "fsm_state (vr_fsm vr)")
      case Init
      with assms i Startup show ?thesis
        by (auto simp: notify_mut_def Let_def bind_eq_Some_conv set_timers set_advert step
            split: if_splits)
    qed (use assms i Startup in \<open>simp_all add: notify_mut_def fsm_step_keep\<close>)
  next
    case NullEvent
    with assms i show ?thesis
      by (cases "fsm_state (vr_fsm vr)") (simp_all add: notify_mut_def fsm_step_keep)
  next
    case Shutdown
    with assms i show ?thesis
      by (cases "fsm_state (vr_fsm vr)")
        (auto simp: notify_mut_def Let_def bind_eq_Some_conv step)
  next
    case MasterDown
    show ?thesis
    proof (cases "fsm_state (vr_fsm vr)")
      case Backup
      with assms i MasterDown show ?thesis
        by (auto simp: notify_mut_def Let_def bind_eq_Some_conv set_advert step)
    qed (use assms i MasterDown in \<open>simp_all add: notify_mut_def fsm_step_keep\<close>)
  qed
qed

interpretation notify_op: fsm_operation
    "\<lambda>os vr tr. map_option snd (notify_mut C os vr ev tr)" "\<lambda>_. {Raised ev}" for C ev
proof unfold_locales
  fix vr os tr vr' tr'
  assume "router_ok vr" and run: "map_option snd (notify_mut C os vr ev tr) = Some (vr', tr')"
  then obtain r where t: "timers_ok vr" and n: "notify_mut C os vr ev tr = Some (r, vr', tr')"
    using router_ok_timers by auto
  show "erase vr' = erase vr \<or> (\<exists>i \<in> {Raised ev}. erase vr' = erase (fsm_step (os_now os tr') i vr))"
    using notify_mut_step [OF t] notify_mut_error n by (cases r) blast+
qed

section \<open>When the observer panics\<close>

text \<open>
  The only panic is the \<open>unwrap\<close> of the mac-vlan's MAC address on the way to Master.
\<close>

context wire_crates
begin

lemma announce_ownership_total: "\<exists>tr'. announce_ownership C os vr mac tr = Some tr'"
  using send_neighbor_advertisements_total
  by (auto simp: announce_ownership_def Let_def split: option.split)

lemma notify_mut_panic_iff:
  assumes "timers_ok vr"
  shows "notify_mut C os vr ev tr = None \<longleftrightarrow>
    (\<exists>i. get_interface os (vr_mac_vlan_interface_v4 vr) tr = Inr i \<and> if_mac i = None
       \<and> (ev = Startup \<and> fsm_state (vr_fsm vr) = Init \<and> vr_priority vr = 255
          \<or> ev = MasterDown \<and> fsm_state (vr_fsm vr) = Backup))"
proof (cases "get_interface os (vr_mac_vlan_interface_v4 vr) tr")
  case (Inl err)
  then show ?thesis by (simp add: notify_mut_def)
next
  case (Inr i)
  have adv: "\<exists>tr'. send_advertisement C os v t = Some tr'" for v t
    by (rule send_advertisement_total)
  have ann: "\<exists>tr'. announce_ownership C os v mac t = Some tr'" for v mac t
    by (rule announce_ownership_total)
  obtain tr1 where tr1: "send_advertisement C os vr tr = Some tr1" using adv by blast
  from ann have "\<forall>mac. \<exists>tr'. announce_ownership C os vr mac tr1 = Some tr'" by blast
  then obtain tr2 where tr2: "\<And>mac. announce_ownership C os vr mac tr1 = Some (tr2 mac)"
    by metis
  obtain tr3 where tr3: "send_advertisement C os (vr\<lparr>vr_fsm := disable_timer (vr_fsm vr)\<rparr>) tr = Some tr3"
    using adv by blast
  note simps = notify_mut_def Inr Let_def set_timers [OF assms] set_advert tr1 tr2 tr3
  show ?thesis
  proof (cases ev)
    case Startup
    then show ?thesis by (cases "if_mac i") (auto simp: simps)
  next
    case NullEvent
    then show ?thesis by (simp add: simps)
  next
    case Shutdown
    then show ?thesis by (cases "fsm_state (vr_fsm vr)") (simp_all add: simps)
  next
    case MasterDown
    then show ?thesis by (cases "if_mac i") (auto simp: simps)
  qed
qed

end

section \<open>Effects of the observer\<close>

context socket_discipline
begin

lemma ext_panic_requests: "extends Q tr (panic_requests C os vr tr)"
  by (auto simp: panic_requests_def ext_refl ext_send_advertisement split: option.split)

lemma ext_announce_ownership:
  assumes "announce_ownership C os vr mac tr = Some tr'"
  shows "extends Q tr tr'"
  using assms ext_gratuitous_arps
    ext_trans [OF ext_gratuitous_arps ext_send_neighbor_advertisements]
  by (fastforce simp: announce_ownership_def Let_def split: option.splits)

end

context link_discipline
begin

lemma ext_add_virtual_addresses: "extends Q tr (add_virtual_addresses C os vr tr)"
  by (auto simp: add_virtual_addresses_def Let_def ext_virtual_address_action
      intro: ext_trans [OF ext_virtual_address_action ext_virtual_address_action] split: option.split)

lemma ext_delete_virtual_addresses: "extends Q tr (delete_virtual_addresses C os vr tr)"
  by (auto simp: delete_virtual_addresses_def Let_def ext_virtual_address_action
      intro: ext_trans [OF ext_virtual_address_action ext_virtual_address_action] split: option.split)

lemma ext_become_master:
  assumes "send_advertisement C os vr tr = Some tr1" and "announce_ownership C os vr mac tr1 = Some tr2"
  shows "extends Q tr (add_virtual_addresses C os vr tr2)"
  using ext_trans [OF ext_trans [OF ext_send_advertisement [OF assms(1)]
      ext_announce_ownership [OF assms(2)]] ext_add_virtual_addresses] .

lemma ext_notify_mut:
  assumes "notify_mut C os vr ev tr = Some (r, vr', tr')" and "ev \<noteq> Shutdown"
  shows "extends Q tr tr'"
  using assms
  by (auto simp: notify_mut_def Let_def bind_eq_Some_conv ext_refl
      intro: ext_become_master ext_delete_virtual_addresses split: sum.splits if_splits)

end

context teardown_discipline
begin

lemma ext_delete_mac_vlans:
  "extends Q tr (case v6 of None \<Rightarrow> delete_mac_vlan os v4 tr
                 | Some v6_iface \<Rightarrow> delete_mac_vlan os v6_iface (delete_mac_vlan os v4 tr))"
  by (auto simp: ext_delete_mac_vlan intro: ext_trans [OF ext_delete_mac_vlan ext_delete_mac_vlan]
      split: option.split)

lemma ext_notify_mut_any:
  assumes "notify_mut C os vr ev tr = Some (r, vr', tr')"
  shows "extends Q tr tr'"
proof (cases "ev = Shutdown")
  case False
  with assms show ?thesis by (rule ext_notify_mut)
next
  case True
  show ?thesis
  proof (cases "get_interface os (vr_mac_vlan_interface_v4 vr) tr")
    case (Inl err)
    with assms show ?thesis by (simp add: notify_mut_def ext_refl)
  next
    case (Inr i)
    let ?teardown = "\<lambda>tr1. case vr_mac_vlan_interface_v6 vr of
          None \<Rightarrow> delete_mac_vlan os (vr_mac_vlan_interface_v4 vr) tr1
        | Some v6 \<Rightarrow> delete_mac_vlan os v6 (delete_mac_vlan os (vr_mac_vlan_interface_v4 vr) tr1)"
    have "\<exists>tr1. extends Q tr tr1 \<and> tr' = ?teardown tr1"
    proof (cases "fsm_state (vr_fsm vr)")
      case Master
      let ?vr = "vr\<lparr>vr_fsm := disable_timer (vr_fsm vr)\<rparr>"
      from Master assms True Inr obtain tr1 where "send_advertisement C os ?vr tr = Some tr1"
        and "tr' = ?teardown (delete_virtual_addresses C os ?vr tr1)"
        by (auto simp: notify_mut_def Let_def bind_eq_Some_conv split: option.splits)
      then show ?thesis
        using ext_trans [OF ext_send_advertisement ext_delete_virtual_addresses] by blast
    qed (use assms True Inr in \<open>auto simp: notify_mut_def Let_def split: option.split
            intro!: exI [of _ tr] ext_refl\<close>)
    then show ?thesis using ext_trans ext_delete_mac_vlans by blast
  qed
qed

end

section \<open>What a takeover announces\<close>

text \<open>
  An undisturbed turn: nothing fails, and the interfaces, which report six-byte MAC addresses,
  and the answers to the lookups of links are the same at every moment of the turn. A mac-vlan
  may be missing; then the lookups say so throughout.
\<close>

definition undisturbed :: "os \<Rightarrow> bool" where
  "undisturbed os \<longleftrightarrow> quiet os
     \<and> (\<forall>tr. os_interfaces os tr = os_interfaces os [])
     \<and> (\<forall>i \<in> set (os_interfaces os []). case if_mac i of Some m \<Rightarrow> length m = 6 | None \<Rightarrow> True)
     \<and> (\<forall>tr name. os_link os tr name = os_link os [] name)"

lemma undisturbed_no_failures: "undisturbed os \<Longrightarrow> no_failures os"
  by (simp add: undisturbed_def quiet_def)

lemma undisturbed_interface: "undisturbed os \<Longrightarrow> get_interface os name tr = get_interface os name []"
  unfolding get_interface_def undisturbed_def by metis

lemma undisturbed_link: "undisturbed os \<Longrightarrow> os_link os tr name = os_link os [] name"
  unfolding undisturbed_def by blast

lemma undisturbed_settled: "undisturbed os \<Longrightarrow> settled os os tr"
  unfolding settled_def using undisturbed_no_failures undisturbed_link by (metis no_failures_simps)

lemma undisturbed_v6_mac: "undisturbed os \<Longrightarrow> v6_interface_mac os vr tr = v6_interface_mac os vr []"
  by (simp add: v6_interface_mac_def undisturbed_interface [of os _ tr])

lemma undisturbed_mac_length:
  assumes "undisturbed os" and "v6_interface_mac os vr tr = Some m"
  shows "length m = 6"
  using assms
  by (auto simp: v6_interface_mac_def get_interface_def undisturbed_def bind_eq_Some_conv find_Some_iff
      split: option.splits sum.splits) (metis (no_types, lifting) nth_mem option.simps(5))

definition na_payloads :: "os \<Rightarrow> virtual_router \<Rightarrow> bytes list" where
  "na_payloads os vr =
     (case v6_interface_mac os vr [] of
        Some m \<Rightarrow> map (na_bytes m) (ipv6_addrs vr)
      | None \<Rightarrow> [])"

definition takeover_payloads :: "os \<Rightarrow> virtual_router \<Rightarrow> mac \<Rightarrow> bytes list" where
  "takeover_payloads os vr mac =
     advert_payloads vr @ map (garp_bytes mac) (ipv4_addrs vr) @ na_payloads os vr"

text \<open>The requests that assign the virtual addresses on the two mac-vlans.\<close>

definition link_requests :: "os \<Rightarrow> address_action \<Rightarrow> string \<Rightarrow> ip_net list \<Rightarrow> trace" where
  "link_requests os action name nets =
     (case os_link os [] name of
        Inr (Some link) \<Rightarrow> map (address_request action (link_index link)) nets
      | _ \<Rightarrow> [])"

definition virtual_requests :: "os \<Rightarrow> address_action \<Rightarrow> virtual_router \<Rightarrow> trace" where
  "virtual_requests os action vr =
     link_requests os action (vr_mac_vlan_interface_v4 vr) (map NetV4 (vr_ipv4_addresses vr))
     @ (case vr_mac_vlan_interface_v6 vr of
          Some v6 \<Rightarrow> link_requests os action v6 (map NetV6 (vr_ipv6_addresses vr))
        | None \<Rightarrow> [])"

definition nets_ok :: "virtual_router \<Rightarrow> bool" where
  "nets_ok vr \<longleftrightarrow> list_all net_ok4 (vr_ipv4_addresses vr) \<and> list_all net_ok6 (vr_ipv6_addresses vr)"

lemma addr_request_requests [simp]: "addr_requests (map (address_request action i) nets)
    = map (address_request action i) nets"
proof -
  have "addr_request (address_request action i net)" for net by (cases action) simp_all
  then show ?thesis by (simp add: addr_requests_def)
qed

context ip_text
begin

lemma requests_nets:
  assumes "settled base os tr"
    and "\<And>index tr. apply_addresses C action index strs tr = tr @ map (address_request action index) nets"
  shows "addr_requests (virtual_address_action C os action strs name tr) =
         addr_requests tr @ link_requests base action name nets"
proof (cases "\<exists>link. os_link base [] name = Inr (Some link)")
  case True
  then obtain link where "os_link os (tr @ [NlConnect]) name = Inr (Some link)"
    "os_link base [] name = Inr (Some link)"
    using settled_answers(2) [OF assms(1), of "[NlConnect]" name] by auto
  then show ?thesis
    using assms(2) addr_request_requests [of action "link_index link" nets]
    by (simp add: virtual_address_action_found settled_answers(1) [OF assms(1)] link_requests_def)
next
  case False
  then show ?thesis
    using settled_answers(2) [OF assms(1), of "[NlConnect]" name]
    by (auto simp: virtual_address_action_def perform_def link_requests_def
        addr_requests_def split: option.split sum.split)
qed

lemma requests_v4:
  assumes "settled base os tr" and "list_all net_ok4 nets"
  shows "addr_requests (virtual_address_action C os action (map (show_ipv4_net C) nets) name tr) =
         addr_requests tr @ link_requests base action name (map NetV4 nets)"
  using apply_shown_v4 [OF assms(2)] by (intro requests_nets [OF assms(1)]) (simp add: comp_def)

lemma requests_v6:
  assumes "settled base os tr" and "list_all net_ok6 nets"
  shows "addr_requests (virtual_address_action C os action (map (show_ipv6_net C) nets) name tr) =
         addr_requests tr @ link_requests base action name (map NetV6 nets)"
  using apply_shown_v6 [OF assms(2)] by (intro requests_nets [OF assms(1)]) (simp add: comp_def)

lemma requests_virtual_addresses:
  assumes "settled base os tr" and "nets_ok vr"
  shows "addr_requests (add_virtual_addresses C os vr tr) = addr_requests tr @ virtual_requests base Add vr"
    and "addr_requests (delete_virtual_addresses C os vr tr) = addr_requests tr @ virtual_requests base Delete vr"
proof -
  have nets: "list_all net_ok4 (vr_ipv4_addresses vr)" "list_all net_ok6 (vr_ipv6_addresses vr)"
    using assms(2) by (simp_all add: nets_ok_def)
  have "settled base os (virtual_address_action C os action strs name tr)" for action strs name
    by (rule settled_extends [OF kept.ext_virtual_address_action assms(1)])
  note v4 = requests_v4 [OF assms(1) nets(1)] and v6 = requests_v6 [OF this nets(2)]
  show "addr_requests (add_virtual_addresses C os vr tr) = addr_requests tr @ virtual_requests base Add vr"
    and "addr_requests (delete_virtual_addresses C os vr tr) = addr_requests tr @ virtual_requests base Delete vr"
    using v4 v6
    by (simp_all add: add_virtual_addresses_def delete_virtual_addresses_def virtual_requests_def
        str_ipv4_addresses_def str_ipv6_addresses_def Let_def split: option.split)
qed

end

lemma payloads_virtual_addresses [simp]:
  "payloads (add_virtual_addresses C os vr tr) = payloads tr"
  "payloads (delete_virtual_addresses C os vr tr) = payloads tr"
  by (simp_all add: add_virtual_addresses_def delete_virtual_addresses_def Let_def split: option.split)

context wire_crates
begin

lemma takeover_effects:
  assumes os: "undisturbed os" and nul: "CHR 0x00 \<notin> set (vr_mac_vlan_interface_v4 vr)"
    and adv: "send_advertisement C os vr tr = Some tr1"
    and ann: "announce_ownership C os vr mac tr1 = Some tr2"
  shows "payloads tr2 = payloads tr @ takeover_payloads os vr mac"
    and "addr_requests tr2 = addr_requests tr"
proof -
  have q: "quiet os" "no_failures os"
    using os by (simp_all add: undisturbed_def quiet_def)
  let ?tr = "send_gratuitous_arps os vr mac tr1"
  have a: "payloads tr1 = payloads tr @ advert_payloads vr"
    using payloads_advertisement [OF q(2) adv] .
  have g: "payloads ?tr = payloads tr1 @ map (garp_bytes mac) (ipv4_addrs vr)"
    using payloads_gratuitous_arps [OF q(1) nul] .
  have "payloads tr2 = payloads ?tr @ na_payloads os vr"
  proof (cases "v6_interface_mac os vr ?tr")
    case None
    with ann undisturbed_v6_mac [OF os, of vr ?tr] show ?thesis
      by (simp add: announce_ownership_def na_payloads_def)
  next
    case (Some m)
    then have "vr_mac_vlan_interface_v6 vr \<noteq> None"
      by (auto simp: v6_interface_mac_def bind_eq_Some_conv)
    then show ?thesis
      using ann Some undisturbed_v6_mac [OF os, of vr ?tr]
        payloads_neighbor_advertisements [OF q(2) undisturbed_mac_length [OF os Some]]
      by (auto simp: announce_ownership_def na_payloads_def)
  qed
  with a g show "payloads tr2 = payloads tr @ takeover_payloads os vr mac"
    by (simp add: takeover_payloads_def)
  show "addr_requests tr2 = addr_requests tr"
    using each.ext_trans [OF sock.ext_send_advertisement [OF adv] sock.ext_announce_ownership [OF ann]]
    by (rule addr_requests_sock)
qed

end

lemma payloads_delete_mac_vlan [simp]: "payloads (delete_mac_vlan os name tr) = payloads tr"
  by (simp add: delete_mac_vlan_def perform_def remaining_address_count_def Let_def
      split: option.split sum.split)

lemma addr_requests_delete_mac_vlan [simp]: "addr_requests (delete_mac_vlan os name tr) = addr_requests tr"
  by (simp add: delete_mac_vlan_def perform_def remaining_address_count_def Let_def
      split: option.split sum.split)

text \<open>The addresses each event assigns and removes.\<close>

definition event_requests :: "os \<Rightarrow> virtual_router \<Rightarrow> event \<Rightarrow> trace" where
  "event_requests os vr ev =
     (case (ev, fsm_state (vr_fsm vr)) of
        (Startup, Init) \<Rightarrow> virtual_requests os (if vr_priority vr = 255 then Add else Delete) vr
      | (MasterDown, Backup) \<Rightarrow> virtual_requests os Add vr
      | (Shutdown, Master) \<Rightarrow> virtual_requests os Delete vr
      | _ \<Rightarrow> [])"

lemma virtual_requests_fsm [simp]: "virtual_requests os action (vr\<lparr>vr_fsm := m\<rparr>) = virtual_requests os action vr"
  by (simp add: virtual_requests_def cong: option.case_cong)

context ip_text
begin

lemma notify_mut_requests:
  assumes "settled base os tr" and "nets_ok vr"
    and "notify_mut C os vr ev tr = Some (Inr (), vr', tr')"
  shows "addr_requests tr' = addr_requests tr @ event_requests base vr ev"
proof -
  have sent: "addr_requests t2 = addr_requests t1 \<and> (settled base os t1 \<longrightarrow> settled base os t2)"
    if "send_advertisement C os v t1 = Some t2" for v t1 t2
    using addr_requests_sock [OF sock.ext_send_advertisement [OF that]]
      settled_extends [OF sock.ext_send_advertisement [OF that]] by blast
  have announced: "addr_requests t2 = addr_requests t1 \<and> (settled base os t1 \<longrightarrow> settled base os t2)"
    if "announce_ownership C os v m t1 = Some t2" for v m t1 t2
    using addr_requests_sock [OF sock.ext_announce_ownership [OF that]]
      settled_extends [OF sock.ext_announce_ownership [OF that]] by blast
  have fsm: "nets_ok (vr\<lparr>vr_fsm := m\<rparr>)" for m using assms(2) by (simp add: nets_ok_def)
  note moved = requests_virtual_addresses [OF _ assms(2)] requests_virtual_addresses [OF _ fsm]
  show ?thesis
    using assms(1,3)
    by (cases "fsm_state (vr_fsm vr)"; cases ev)
      (auto simp: notify_mut_def event_requests_def Let_def bind_eq_Some_conv moved
        split: sum.splits if_splits option.splits dest!: sent announced)
qed

end

section \<open>The example system\<close>

lemma example_interface [simp]:
  "get_interface (example_os now) ''fover4-51-9724'' tr =
   Inr \<lparr>if_name = ''fover4-51-9724'', if_mac = Some example_mac, if_ips = []\<rparr>"
  by (simp add: get_interface_def example_os_def example_interfaces_def)

lemma example_undisturbed [simp]: "undisturbed (example_os now)"
  by (simp add: undisturbed_def) (simp add: example_os_def example_interfaces_def example_mac_def)

lemma example_now [simp]: "os_now (example_os now) tr = now"
  by (simp add: example_os_def)

text \<open>The example router in a given state, with the timer of that state running from time 0.\<close>

definition example_in :: "state \<Rightarrow> virtual_router" where
  "example_in s = example_router\<lparr>vr_fsm := \<lparr>fsm_timer =
       (case s of Init \<Rightarrow> default_timer
        | Backup \<Rightarrow> running MasterDownTimer 0 (down_of example_router)
        | Master \<Rightarrow> running AdverTimer 0 (advert_of example_router)),
     fsm_state = s, fsm_event = Startup\<rparr>\<rparr>"

lemma example_in_fields [simp]:
  "vr_name (example_in s) = ''VR_1''" "vr_vrid (example_in s) = 51" "vr_version (example_in s) = V2"
  "vr_ipv4_addresses (example_in s) = [example_net]" "vr_ipv6_addresses (example_in s) = []"
  "vr_priority (example_in s) = 100" "vr_advert_interval (example_in s) = 1"
  "vr_preempt_mode (example_in s)" "vr_mac_vlan_interface_v4 (example_in s) = ''fover4-51-9724''"
  "vr_mac_vlan_interface_v6 (example_in s) = None" "vr_primary_ip_v6 (example_in s) = None"
  "fsm_state (vr_fsm (example_in s)) = s"
  by (simp_all add: example_in_def)

lemma example_in_ok [simp]: "router_ok (example_in s)" "timers_ok (example_in s)"
  by (cases s; simp add: router_ok_def example_in_def machine_ok_def running_def default_timer_def)+

section \<open>Properties of the observer\<close>

lemma notify_mut_outcome:
  assumes "timers_ok vr" and "notify_mut C os vr ev tr = Some (r, vr', tr')"
  shows "case r of
      Inr _ \<Rightarrow> vr' = fsm_step (os_now os tr') (Raised ev) vr
        \<and> (\<exists>i. get_interface os (vr_mac_vlan_interface_v4 vr) tr = Inr i)
    | Inl err \<Rightarrow> vr' = vr \<and> tr' = tr \<and> get_interface os (vr_mac_vlan_interface_v4 vr) tr = Inl err"
proof (cases r)
  case (Inl err)
  with assms(2) have "vr' = vr \<and> tr' = tr" by (simp add: notify_mut_error)
  moreover have "get_interface os (vr_mac_vlan_interface_v4 vr) tr = Inl err"
    using assms(2) Inl by (auto simp: notify_mut_def Let_def bind_eq_Some_conv split: sum.splits if_splits)
  ultimately show ?thesis using Inl by simp
next
  case (Inr u)
  with assms(2) have "\<exists>i. get_interface os (vr_mac_vlan_interface_v4 vr) tr = Inr i"
    by (cases "get_interface os (vr_mac_vlan_interface_v4 vr) tr") (auto simp: notify_mut_def)
  with notify_mut_step [OF assms(1)] assms(2) Inr show ?thesis by simp
qed

text \<open>C4: The observer implements the protocol. If it succeeds, the router is the one
  the protocol step of the event gives at the time of the last effect, with its timer exact
  to the nanosecond and every configured field unchanged; if it fails, which happens exactly
  when the mac-vlan of the instance is gone, nothing was changed and nothing was sent.\<close>

theorem observer_refines:
  assumes "timers_ok vr" and "notify_mut C os vr ev tr = Some (r, vr', tr')"
  shows "case r of
      Inr _ \<Rightarrow> vr' = fsm_step (os_now os tr') (Raised ev) vr
        \<and> (\<exists>i. get_interface os (vr_mac_vlan_interface_v4 vr) tr = Inr i)
    | Inl err \<Rightarrow> vr' = vr \<and> tr' = tr \<and> get_interface os (vr_mac_vlan_interface_v4 vr) tr = Inl err"
  by (rule notify_mut_outcome [OF assms])

lemma example_shutdown:
  "\<exists>vr' tr'. notify_mut list_crates (example_os 7) (example_in Backup) Shutdown [] = Some (Inr (), vr', tr')"
  by (simp add: notify_mut_def)

theorem observer_refines_witness:
  "\<exists>vr' tr'. notify_mut list_crates (example_os 7) (example_in Backup) Shutdown [] = Some (Inr (), vr', tr')
     \<and> vr' = fsm_step 7 (Raised Shutdown) (example_in Backup)"
proof -
  obtain vr' tr' where s: "notify_mut list_crates (example_os 7) (example_in Backup) Shutdown []
      = Some (Inr (), vr', tr')"
    using example_shutdown by blast
  from observer_refines [OF example_in_ok(2) s] s show ?thesis by auto
qed

text \<open>C17: A Backup whose master-down timer fires, in an undisturbed system in which its mac-vlan
  is there and has a MAC address, becomes Master in two phases that never mix. First it
  announces itself, and changes no address: an advertisement of its own priority per family
  that has an interface and a source address, a gratuitous ARP for every virtual IPv4 address,
  and, if its IPv6 mac-vlan is found with a MAC address, a Neighbor Advertisement for every
  virtual IPv6 address. Only then, and without sending anything any more, it assigns its virtual
  addresses of each family whose mac-vlan the lookup of its link finds, and removes none. The
  same holds of an owner (priority 255) at Startup.\<close>

theorem takeover_announces:
  assumes "wire_crates C" and "ip_text C" and "undisturbed os" and "timers_ok vr"
    and "CHR 0x00 \<notin> set (vr_mac_vlan_interface_v4 vr)"
    and "list_all net_ok4 (vr_ipv4_addresses vr)" and "list_all net_ok6 (vr_ipv6_addresses vr)"
    and "ev = MasterDown \<and> fsm_state (vr_fsm vr) = Backup
         \<or> ev = Startup \<and> fsm_state (vr_fsm vr) = Init \<and> vr_priority vr = 255"
    and "get_interface os (vr_mac_vlan_interface_v4 vr) [] = Inr i" and "if_mac i = Some mac"
  shows "\<exists>vr' announced assigns. notify_mut C os vr ev [] = Some (Inr (), vr', announced @ assigns)
    \<and> fsm_state (vr_fsm vr') = Master
    \<and> payloads announced = advert_payloads vr @ map (garp_bytes mac) (ipv4_addrs vr) @ na_payloads os vr
    \<and> addr_requests announced = []
    \<and> payloads assigns = [] \<and> addr_requests assigns = virtual_requests os Add vr"
proof -
  obtain tr1 where adv: "send_advertisement C os vr [] = Some tr1"
    using wire_crates.send_advertisement_total [OF assms(1)] by blast
  obtain tr2 where ann: "announce_ownership C os vr mac tr1 = Some tr2"
    using wire_crates.announce_ownership_total [OF assms(1)] by blast
  let ?tr = "add_virtual_addresses C os vr tr2"
  obtain es where es: "?tr = tr2 @ es"
    using kept.ext_add_virtual_addresses [of tr2 C os vr] by (auto simp: extends_def)
  have n: "notify_mut C os vr ev [] = Some (Inr (), vr\<lparr>vr_fsm := (vr_fsm vr)\<lparr>fsm_timer :=
      running AdverTimer (os_now os ?tr) (advert_of vr), fsm_state := Master\<rparr>\<rparr>, ?tr)"
    using assms(8,9,10) adv ann by (auto simp: notify_mut_def Let_def set_advert)
  have nets: "nets_ok vr" using assms(6,7) by (simp add: nets_ok_def)
  have "payloads es = []" and "addr_requests es = virtual_requests os Add vr"
    using payloads_virtual_addresses(1) [where C = C and os = os and vr = vr and tr = tr2]
      ip_text.requests_virtual_addresses(1) [OF assms(2) undisturbed_settled [OF assms(3)] nets, of tr2]
    by (simp_all add: es)
  then show ?thesis
    using n wire_crates.takeover_effects [OF assms(1,3,5) adv ann] es
    by (intro exI [of _ "vr\<lparr>vr_fsm := (vr_fsm vr)\<lparr>fsm_timer :=
        running AdverTimer (os_now os ?tr) (advert_of vr), fsm_state := Master\<rparr>\<rparr>"] exI [of _ tr2] exI [of _ es])
      (simp add: takeover_payloads_def addr_requests_def)
qed

theorem takeover_announces_witness:
  "\<exists>vr' announced assigns.
     notify_mut list_crates (example_os 9) (example_in Backup) MasterDown [] = Some (Inr (), vr', announced @ assigns)
    \<and> fsm_state (vr_fsm vr') = Master
    \<and> payloads announced = [sealed_v4 (advert_v4 (example_in Backup)) [ipv4_new 10 0 0 1],
                            garp_bytes example_mac (ipv4_new 10 0 0 1)]
    \<and> addr_requests announced = []
    \<and> payloads assigns = [] \<and> addr_requests assigns = [AddrAdd 7 (IpV4 (ipv4_new 10 0 0 1)) 24]"
proof -
  have "\<exists>vr' announced assigns.
     notify_mut list_crates (example_os 9) (example_in Backup) MasterDown [] = Some (Inr (), vr', announced @ assigns)
    \<and> fsm_state (vr_fsm vr') = Master
    \<and> payloads announced = advert_payloads (example_in Backup)
        @ map (garp_bytes example_mac) (ipv4_addrs (example_in Backup))
        @ na_payloads (example_os 9) (example_in Backup)
    \<and> addr_requests announced = []
    \<and> payloads assigns = [] \<and> addr_requests assigns = virtual_requests (example_os 9) Add (example_in Backup)"
    by (rule takeover_announces [where i = "\<lparr>if_name = ''fover4-51-9724'', if_mac = Some example_mac, if_ips = []\<rparr>",
          OF lc.wire_crates_axioms lt.ip_text_axioms])
      (simp_all add: net_ok4_def example_net_def)
  then show ?thesis
    by (simp add: advert_payloads_def na_payloads_def v6_interface_mac_def virtual_requests_def
        link_requests_def ipv4_addrs_def example_net_def)
      (simp add: example_os_def example_link_def)
qed

text \<open>C18: In an undisturbed system in which the mac-vlan is there, Shutdown ends in Init with no
  timer, in three phases in this order. First a Master sends its advertisements, carrying its
  configured priority, and changes no address; then it removes its virtual addresses on the
  links that are found, and sends nothing; only at the end, where nothing is sent and no address
  changed any more, may a mac-vlan be deleted. A Backup or an instance in Init only has this
  last phase. RFC 3768 section 6.4.3 and RFC 5798 ask for a priority of 0 in that last
  advertisement, which would let the Backups take over after their skew time instead of the
  whole master-down interval.\<close>

theorem shutdown_cleans_up:
  assumes "wire_crates C" and "ip_text C" and "undisturbed os" and "machine_ok (vr_fsm vr)"
    and "list_all net_ok4 (vr_ipv4_addresses vr)" and "list_all net_ok6 (vr_ipv6_addresses vr)"
    and "get_interface os (vr_mac_vlan_interface_v4 vr) [] = Inr i"
  shows "\<exists>vr' sent removed links.
    notify_mut C os vr Shutdown [] = Some (Inr (), vr', sent @ removed @ links)
    \<and> fsm_state (vr_fsm vr') = Init \<and> waiting_for (fsm_timer (vr_fsm vr')) = None
    \<and> payloads sent = (if fsm_state (vr_fsm vr) = Master then advert_payloads vr else [])
    \<and> addr_requests sent = [] \<and> list_all keeps_links sent
    \<and> payloads removed = [] \<and> list_all keeps_links removed
    \<and> addr_requests removed =
        (if fsm_state (vr_fsm vr) = Master then virtual_requests os Delete vr else [])
    \<and> payloads links = [] \<and> addr_requests links = []"
proof -
  let ?teardown = "\<lambda>tr. case vr_mac_vlan_interface_v6 vr of
        None \<Rightarrow> delete_mac_vlan os (vr_mac_vlan_interface_v4 vr) tr
      | Some v6 \<Rightarrow> delete_mac_vlan os v6 (delete_mac_vlan os (vr_mac_vlan_interface_v4 vr) tr)"
  have teardown: "\<exists>es. ?teardown tr = tr @ es \<and> payloads es = [] \<and> addr_requests es = []" for tr
  proof -
    obtain es where es: "?teardown tr = tr @ es"
      using hops_links.ext_delete_mac_vlans [where ?tr = tr and os = os and ?v4.0 = "vr_mac_vlan_interface_v4 vr"
          and ?v6.0 = "vr_mac_vlan_interface_v6 vr"]
      by (auto simp: extends_def)
    have "payloads (?teardown tr) = payloads tr" "addr_requests (?teardown tr) = addr_requests tr"
      by (simp_all split: option.split)
    then have "payloads es = []" "addr_requests es = []" unfolding es by simp_all
    with es show ?thesis by blast
  qed
  let ?vr = "vr\<lparr>vr_fsm := disable_timer (vr_fsm vr)\<rparr>"
  show ?thesis
  proof (cases "fsm_state (vr_fsm vr) = Master")
    case False
    obtain es where "?teardown [] = [] @ es" "payloads es = []" "addr_requests es = []"
      using teardown by blast
    moreover obtain vr' where "notify_mut C os vr Shutdown [] = Some (Inr (), vr', ?teardown [])"
      "fsm_state (vr_fsm vr') = Init" "waiting_for (fsm_timer (vr_fsm vr')) = None"
      using False assms(4,7)
      by (cases "fsm_state (vr_fsm vr)") (auto simp: notify_mut_def Let_def machine_ok_def split: option.split)
    ultimately show ?thesis
      using False by (intro exI [of _ vr'] exI [of _ "[]"] exI [of _ es]) simp
  next
    case True
    obtain sent where adv: "send_advertisement C os ?vr [] = Some sent"
      using wire_crates.send_advertisement_total [OF assms(1)] by blast
    obtain removed where r: "delete_virtual_addresses C os ?vr sent = sent @ removed"
      and kr: "list_all keeps_links removed"
      using kept.ext_delete_virtual_addresses [of sent C os ?vr] by (auto simp: extends_def)
    obtain links where l: "?teardown (sent @ removed) = (sent @ removed) @ links"
      "payloads links = []" "addr_requests links = []"
      using teardown by blast
    have "nets_ok ?vr" using assms(5,6) by (simp add: nets_ok_def)
    note moved = ip_text.requests_virtual_addresses(2)
      [OF assms(2) undisturbed_settled [OF assms(3)] this, of sent, unfolded r]
    have "payloads removed = []"
      using payloads_virtual_addresses(2) [where C = C and os = os and vr = ?vr and tr = sent] unfolding r by simp
    moreover have "addr_requests removed = virtual_requests os Delete vr" using moved by simp
    moreover have "payloads sent = advert_payloads vr"
      using wire_crates.payloads_advertisement [OF assms(1) undisturbed_no_failures [OF assms(3)] adv]
      by (simp add: advert_payloads_def advert_v4_def advert_v6_def adver_int_of_def ipv4_addrs_def
          ipv6_addrs_def cong: option.case_cong)
    moreover have "addr_requests sent = []"
      using addr_requests_sock [OF sock.ext_send_advertisement [OF adv]] by (simp add: addr_requests_def)
    moreover have "list_all keeps_links sent" using kept.ext_send_advertisement [OF adv] by simp
    moreover have "notify_mut C os vr Shutdown [] = Some (Inr (),
        ?vr\<lparr>vr_fsm := (disable_timer (vr_fsm vr))\<lparr>fsm_state := Init\<rparr>\<rparr>, sent @ removed @ links)"
      using True assms(7) adv r l(1) by (simp add: notify_mut_def Let_def split: option.splits)
    ultimately show ?thesis
      using True l(2,3) kr by (intro exI conjI) (assumption | simp)+
  qed
qed

theorem shutdown_cleans_up_witness:
  "\<exists>vr' sent removed links.
     notify_mut list_crates (example_os 9) (example_in Master) Shutdown [] = Some (Inr (), vr', sent @ removed @ links)
    \<and> fsm_state (vr_fsm vr') = Init
    \<and> payloads sent = [sealed_v4 (advert_v4 (example_in Master)) [ipv4_new 10 0 0 1]]
    \<and> addr_requests sent = []
    \<and> addr_requests removed = [AddrDel 7 (IpV4 (ipv4_new 10 0 0 1)) 24]"
proof -
  have "\<exists>vr' sent removed links.
      notify_mut list_crates (example_os 9) (example_in Master) Shutdown [] = Some (Inr (), vr', sent @ removed @ links)
    \<and> fsm_state (vr_fsm vr') = Init \<and> waiting_for (fsm_timer (vr_fsm vr')) = None
    \<and> payloads sent = (if fsm_state (vr_fsm (example_in Master)) = Master
                       then advert_payloads (example_in Master) else [])
    \<and> addr_requests sent = [] \<and> list_all keeps_links sent
    \<and> payloads removed = [] \<and> list_all keeps_links removed
    \<and> addr_requests removed = (if fsm_state (vr_fsm (example_in Master)) = Master
                               then virtual_requests (example_os 9) Delete (example_in Master) else [])
    \<and> payloads links = [] \<and> addr_requests links = []"
    by (rule shutdown_cleans_up [where i = "\<lparr>if_name = ''fover4-51-9724'', if_mac = Some example_mac, if_ips = []\<rparr>",
          OF lc.wire_crates_axioms lt.ip_text_axioms])
      (use example_in_ok in \<open>simp_all add: net_ok4_def example_net_def router_ok_def\<close>)
  moreover have "advert_payloads (example_in Master) = [sealed_v4 (advert_v4 (example_in Master)) [ipv4_new 10 0 0 1]]"
    by (simp add: advert_payloads_def ipv4_addrs_def example_net_def)
  moreover have "virtual_requests (example_os 9) Delete (example_in Master) = [AddrDel 7 (IpV4 (ipv4_new 10 0 0 1)) 24]"
    by (simp add: virtual_requests_def link_requests_def example_net_def)
      (simp add: example_os_def example_link_def)
  ultimately show ?thesis unfolding example_in_fields(12) by (simp only: if_True simp_thms) blast
qed

end
