(* ===== verification/Handlers.thy ===== *)
theory Handlers
  imports Observer
begin

text \<open>
  The packet handlers of \<open>src/src/pkt/handlers.rs\<close>: ARP, neighbour solicitation and VRRP over
  both address families. The Ethernet and IPv4 views of \<open>pnet\<close> are records of the accessors
  the handlers call. Shown are the refinement of the protocol, what is refused and how it is
  logged, the answers to requests, and which addresses a packet moves.
\<close>

record eth_packet =
  eth_source :: mac
  eth_payload :: bytes

record ipv4_packet =
  ip_source :: u32
  ip_destination :: u32
  ip_ttl :: u8
  ip_payload :: bytes

section \<open>ARP and neighbour solicitations\<close>

definition arp_reply :: "os \<Rightarrow> mac \<Rightarrow> eth_packet \<Rightarrow> arp_packet \<Rightarrow> arp_frame" where
  "arp_reply os interface_mac eth_packet arp_packet =
     arp_frame_new (os_big_endian os)
       \<lparr>eth_dst_mac = eth_source eth_packet, eth_src_mac = interface_mac, eth_ethertype = 0x806\<rparr>
       \<lparr>hw_type = 1, proto_type = 0x0800, hw_length = 6, proto_length = 4, operation = 2,
        sender_hw_address = interface_mac,
        sender_proto_address = target_proto_address arp_packet,
        target_hw_address = sender_hw_address arp_packet,
        target_proto_address = sender_proto_address arp_packet\<rparr>"

definition handle_incoming_arp_pkt ::
  "crates \<Rightarrow> os \<Rightarrow> eth_packet \<Rightarrow> router_mutex \<Rightarrow> trace \<Rightarrow> ((net_error + unit) \<times> trace) option" where
  "handle_incoming_arp_pkt C os eth_packet mx tr =
     (if poisoned mx then Some (Inl LockPoisoned, tr)
      else let vrouter = guarded mx in
        case get_interface os (vr_mac_vlan_interface_v4 vrouter) tr of
          Inl err \<Rightarrow> Some (Inl err, tr)
        | Inr interface \<Rightarrow> do {
            decoded \<leftarrow> arp_decode C (eth_payload eth_packet);
            case decoded of
              None \<Rightarrow> Some (Inr (), tr)
            | Some arp_packet \<Rightarrow>
                (case if_mac interface of
                   None \<Rightarrow> Some (Inr (), tr)
                 | Some interface_mac \<Rightarrow>
                     (case fsm_state (vr_fsm vrouter) of
                        Init \<Rightarrow> Some (Inr (), tr)
                      | Backup \<Rightarrow>
                          if list_ex (\<lambda>ip. octets4 (addr4 ip) = target_proto_address arp_packet)
                               (vr_ipv4_addresses vrouter)
                          then Some (Inr (), tr)
                          else if target_hw_address arp_packet = interface_mac
                          then Some (Inr (), tr)
                          else Some (Inr (), tr)
                      | Master \<Rightarrow>
                          if operation arp_packet \<noteq> 1
                             \<or> sender_hw_address arp_packet = interface_mac
                          then Some (Inr (), tr)
                          else Some (Inr (), foldl (\<lambda>tr ip.
                            if octets4 (addr4 ip) = target_proto_address arp_packet
                            then send_packet_arp os (if_name interface)
                                   (arp_reply os interface_mac eth_packet arp_packet) tr
                            else tr) tr (vr_ipv4_addresses vrouter))))
          })"

definition handle_incoming_ndp_pkt ::
  "crates \<Rightarrow> os \<Rightarrow> bytes \<Rightarrow> u128 \<Rightarrow> router_mutex \<Rightarrow> trace \<Rightarrow> ((net_error + unit) \<times> trace) option" where
  "handle_incoming_ndp_pkt C os payload src_ip mx tr =
     (if poisoned mx then Some (Inl LockPoisoned, tr)
      else let vrouter = guarded mx in
        case vr_mac_vlan_interface_v6 vrouter of
          None \<Rightarrow> Some (Inr (), tr)
        | Some v6_iface \<Rightarrow>
            if fsm_state (vr_fsm vrouter) \<noteq> Master then Some (Inr (), tr)
            else case ns_decode payload of
              None \<Rightarrow> Some (Inr (), tr)
            | Some target_address \<Rightarrow>
                if \<not> list_ex (\<lambda>ip. addr6 ip = target_address) (vr_ipv6_addresses vrouter)
                then Some (Inr (), tr)
                else case get_interface os v6_iface tr of
                  Inl err \<Rightarrow> Some (Inl err, tr)
                | Inr interface \<Rightarrow>
                    (case if_mac interface of
                       None \<Rightarrow> Some (Inr (), tr)
                     | Some interface_mac \<Rightarrow> do {
                         tr \<leftarrow> send_neighbor_advertisement C os v6_iface target_address
                                 \<lparr>na_target_address = target_address,
                                  na_target_link_addr = interface_mac,
                                  na_override_flag = True\<rparr> tr;
                         Some (Inr (), tr)
                       }))"

section \<open>VRRP advertisements\<close>

fun drop_level :: "packet_error \<Rightarrow> log_level" where
  "drop_level (VridMismatch _ _) = Trace"
| "drop_level (BadTtl _) = Warn"
| "drop_level BadChecksum = Warn"
| "drop_level _ = Error"

definition log_drop :: "string \<Rightarrow> packet_error \<Rightarrow> trace \<Rightarrow> trace" where
  "log_drop vrouter_name reason tr = tr @ [LogDrop (drop_level reason) vrouter_name reason]"

text \<open>
  The checks of \<open>process_vrrp_packet\<close> on a decoded packet, in the order of the code, with the
  log entries they leave: \<open>False\<close> when the packet is dropped. A wrong address count or list is
  tolerated from a priority of 255.
\<close>

definition verify_packet :: "virtual_router \<Rightarrow> vrrp_packet \<Rightarrow> u8 \<Rightarrow> trace \<Rightarrow> bool \<times> trace" where
  "verify_packet vrouter vrrp_packet ttl tr =
     (if ttl \<noteq> 255 then (False, log_drop (vr_name vrouter) (BadTtl ttl) tr)
      else if vrid vrrp_packet \<noteq> vr_vrid vrouter then
        (False, log_drop (vr_name vrouter) (VridMismatch (vr_vrid vrouter) (vrid vrrp_packet)) tr)
      else if adver_int_cs vrrp_packet \<noteq> adver_int_of vrouter then
        (False, log_drop (vr_name vrouter)
           (AdvertIntervalMismatch (vr_advert_interval vrouter) (ucast (adver_int_cs vrrp_packet div 100))) tr)
      else
        let (count_check, addr_check, expected_count) =
              (case addresses vrrp_packet of
                 AddrsV4 addrs \<Rightarrow>
                   (length addrs = length (vr_ipv4_addresses vrouter),
                    list_all (\<lambda>a. a \<in> set (ipv4_addrs vrouter)) addrs,
                    word_of_nat (length (vr_ipv4_addresses vrouter)))
               | AddrsV6 addrs \<Rightarrow>
                   (length addrs = length (vr_ipv6_addresses vrouter),
                    list_all (\<lambda>a. a \<in> set (ipv6_addrs vrouter)) addrs,
                    word_of_nat (length (vr_ipv6_addresses vrouter))));
            tr = (if \<not> count_check
                  then log_drop (vr_name vrouter)
                         (IpCountMismatch expected_count
                            (word_of_nat (addresses_len (addresses vrrp_packet)))) tr
                  else tr)
        in if \<not> count_check \<and> priority vrrp_packet \<noteq> 255 then (False, tr)
           else if \<not> addr_check \<and> priority vrrp_packet \<noteq> 255
           then (False, log_drop (vr_name vrouter) IpListMismatch tr)
           else (True, tr))"

text \<open>
  The transition of \<open>process_vrrp_packet\<close> on a packet that passed the checks.
\<close>

definition act_on_packet ::
  "crates \<Rightarrow> os \<Rightarrow> virtual_router \<Rightarrow> vrrp_packet \<Rightarrow> string \<Rightarrow> string list \<Rightarrow> trace \<Rightarrow>
   ((net_error + unit) \<times> virtual_router \<times> trace) option" where
  "act_on_packet C os vrouter vrrp_packet mac_vlan_iface str_addresses tr =
     (case fsm_state (vr_fsm vrouter) of
        Backup \<Rightarrow>
          if priority vrrp_packet = 0 then do {
            fsm \<leftarrow> set_master_down_timer (os_now os tr) (vr_skew_time vrouter) (vr_fsm vrouter);
            Some (Inr (), vrouter\<lparr>vr_fsm := fsm\<rparr>, tr)
          }
          else if \<not> vr_preempt_mode vrouter \<or> priority vrrp_packet \<ge> vr_priority vrouter then do {
            fsm \<leftarrow> set_master_down_timer (os_now os tr) (vr_master_down_interval vrouter) (vr_fsm vrouter);
            Some (Inr (), vrouter\<lparr>vr_fsm := fsm\<rparr>, tr)
          }
          else if vr_priority vrouter > priority vrrp_packet then
            let tr = virtual_address_action C os Add str_addresses mac_vlan_iface tr in do {
              fsm \<leftarrow> set_advert_timer (os_now os tr) (f32_of_u8 (vr_advert_interval vrouter))
                       ((vr_fsm vrouter)\<lparr>fsm_state := Master\<rparr>);
              Some (Inr (), vrouter\<lparr>vr_fsm := fsm\<rparr>, tr)
            }
          else Some (Inr (), vrouter, tr)
      | Master \<Rightarrow>
          if priority vrrp_packet = 0 then do {
            tr \<leftarrow> send_advertisement C os vrouter tr;
            fsm \<leftarrow> set_advert_timer (os_now os tr) (f32_of_u8 (vr_advert_interval vrouter)) (vr_fsm vrouter);
            Some (Inr (), vrouter\<lparr>vr_fsm := fsm\<rparr>, tr)
          }
          else if priority vrrp_packet > vr_priority vrouter then
            let tr = virtual_address_action C os Delete str_addresses mac_vlan_iface tr in do {
              fsm \<leftarrow> set_master_down_timer (os_now os tr) (vr_master_down_interval vrouter) (vr_fsm vrouter);
              notify_mut C os (vrouter\<lparr>vr_fsm := fsm\<lparr>fsm_state := Backup\<rparr>\<rparr>) NullEvent tr
            }
          else if priority vrrp_packet = vr_priority vrouter then
            let tr = virtual_address_action C os Delete str_addresses mac_vlan_iface tr in do {
              fsm \<leftarrow> set_master_down_timer (os_now os tr) (vr_master_down_interval vrouter) (vr_fsm vrouter);
              notify_mut C os
                (vrouter\<lparr>vr_fsm := fsm\<lparr>fsm_state := Backup, fsm_event := NullEvent\<rparr>\<rparr>) NullEvent tr
            }
          else Some (Inr (), vrouter, tr)
      | Init \<Rightarrow> Some (Inr (), vrouter, tr))"

definition process_vrrp_packet ::
  "crates \<Rightarrow> os \<Rightarrow> bytes \<Rightarrow> ip_addr \<Rightarrow> ip_addr \<Rightarrow> u8 \<Rightarrow> router_mutex \<Rightarrow> trace \<Rightarrow>
   ((net_error + unit) \<times> router_mutex \<times> trace) option" where
  "process_vrrp_packet C os payload src_ip dst_ip ttl mx tr =
     (if poisoned mx then Some (Inr (), mx, tr)
      else let vrouter = guarded mx in do {
        decoded \<leftarrow> decode C payload src_ip dst_ip;
        case decoded of
          Inl err \<Rightarrow> Some (Inr (), mx, log_drop (vr_name vrouter) err tr)
        | Inr vrrp_packet \<Rightarrow>
            (case verify_packet vrouter vrrp_packet ttl tr of
               (False, tr) \<Rightarrow> Some (Inr (), mx, tr)
             | (True, tr) \<Rightarrow>
                 (case (case addresses vrrp_packet of
                          AddrsV4 _ \<Rightarrow> Some (vr_mac_vlan_interface_v4 vrouter, str_ipv4_addresses C vrouter)
                        | AddrsV6 _ \<Rightarrow>
                            map_option (\<lambda>iface. (iface, str_ipv6_addresses C vrouter))
                              (vr_mac_vlan_interface_v6 vrouter)) of
                    None \<Rightarrow> Some (Inr (), mx, tr)
                  | Some (mac_vlan_iface, str_addresses) \<Rightarrow> do {
                      (r, vrouter, tr) \<leftarrow>
                        act_on_packet C os vrouter vrrp_packet mac_vlan_iface str_addresses tr;
                      Some (r, mx\<lparr>guarded := vrouter\<rparr>, tr)
                    }))
      })"

definition is_local_source :: "os \<Rightarrow> ip_addr \<Rightarrow> trace \<Rightarrow> bool" where
  "is_local_source os src tr =
     list_ex (\<lambda>interface. list_ex (\<lambda>ip. ip = src) (if_ips interface)) (os_interfaces os tr)"

definition handle_incoming_vrrp_v4_pkt ::
  "crates \<Rightarrow> os \<Rightarrow> ipv4_packet \<Rightarrow> router_mutex \<Rightarrow> trace \<Rightarrow>
   ((net_error + unit) \<times> router_mutex \<times> trace) option" where
  "handle_incoming_vrrp_v4_pkt C os ip_packet mx tr =
     (if is_local_source os (IpV4 (ip_source ip_packet)) tr then Some (Inr (), mx, tr)
      else process_vrrp_packet C os (ip_payload ip_packet) (IpV4 (ip_source ip_packet))
             (IpV4 (ip_destination ip_packet)) (ip_ttl ip_packet) mx tr)"

definition handle_incoming_vrrp_v6_pkt ::
  "crates \<Rightarrow> os \<Rightarrow> bytes \<Rightarrow> u128 \<Rightarrow> router_mutex \<Rightarrow> trace \<Rightarrow>
   ((net_error + unit) \<times> router_mutex \<times> trace) option" where
  "handle_incoming_vrrp_v6_pkt C os payload src_ip mx tr =
     (if is_local_source os (IpV6 src_ip) tr then Some (Inr (), mx, tr)
      else process_vrrp_packet C os payload (IpV6 src_ip) (IpV6 VRRP_V6_MCAST_ADDR) 255 mx tr)"

section \<open>Which advertisements are accepted\<close>

text \<open>
  The address list of a packet fits when it is as long as the configured list of its family
  and names only configured addresses.
\<close>

fun addresses_match :: "virtual_router \<Rightarrow> vrrp_addresses \<Rightarrow> bool" where
  "addresses_match vr (AddrsV4 addrs) \<longleftrightarrow>
     length addrs = length (vr_ipv4_addresses vr) \<and> set addrs \<subseteq> set (ipv4_addrs vr)"
| "addresses_match vr (AddrsV6 addrs) \<longleftrightarrow>
     length addrs = length (vr_ipv6_addresses vr) \<and> set addrs \<subseteq> set (ipv6_addrs vr)"

definition accepts :: "virtual_router \<Rightarrow> vrrp_packet \<Rightarrow> u8 \<Rightarrow> bool" where
  "accepts vr p ttl \<longleftrightarrow>
     ttl = 255 \<and> vrid p = vr_vrid vr \<and> adver_int_cs p = adver_int_of vr
     \<and> (priority p = 255 \<or> addresses_match vr (addresses p))"

text \<open>The interface of the packet's address family; without one the packet has no effect.\<close>

fun family_interface :: "virtual_router \<Rightarrow> vrrp_addresses \<Rightarrow> string option" where
  "family_interface vr (AddrsV4 _) = Some (vr_mac_vlan_interface_v4 vr)"
| "family_interface vr (AddrsV6 _) = vr_mac_vlan_interface_v6 vr"

fun family_strings :: "crates \<Rightarrow> virtual_router \<Rightarrow> vrrp_addresses \<Rightarrow> string list" where
  "family_strings C vr (AddrsV4 _) = str_ipv4_addresses C vr"
| "family_strings C vr (AddrsV6 _) = str_ipv6_addresses C vr"

lemma verify_packet_accepts: "fst (verify_packet vr p ttl tr) \<longleftrightarrow> accepts vr p ttl"
  by (auto simp: verify_packet_def accepts_def Let_def list_all_iff split: vrrp_addresses.split)

text \<open>
  A packet that is refused leaves one log entry; an accepted one leaves none, except that a
  wrong address count of an address owner is noted.
\<close>

lemma verify_packet_refused:
  assumes "\<not> accepts vr p ttl"
  shows "\<exists>reason. verify_packet vr p ttl tr = (False, log_drop (vr_name vr) reason tr)"
  using assms
  by (auto simp: verify_packet_def accepts_def Let_def list_all_iff split: vrrp_addresses.split)

lemma verify_packet_accepted:
  assumes "accepts vr p ttl"
  shows "verify_packet vr p ttl tr = (True, tr)
       \<or> (\<exists>e. priority p = 255 \<and> verify_packet vr p ttl tr = (True, log_drop (vr_name vr) e tr))"
  using assms
  by (auto simp: verify_packet_def accepts_def Let_def list_all_iff split: vrrp_addresses.split)

section \<open>The handlers execute the protocol\<close>

lemma notify_null:
  "\<exists>r. notify_mut C os vr NullEvent tr = Some (r, vr, tr)
     \<and> (\<forall>err. r = Inl err \<longleftrightarrow> get_interface os (vr_mac_vlan_interface_v4 vr) tr = Inl err)"
  by (auto simp: notify_mut_def split: sum.split)

lemma act_on_packet_step:
  assumes "timers_ok vr" and "act_on_packet C os vr p iface strs tr = Some (r, vr', tr')"
  shows "erase vr' = erase (fsm_step (os_now os tr') (Advert (priority p)) vr)"
proof -
  note step = fsm_step_def running_def erase_def
  have null: "vr1 = vr2 \<and> t1 = t2" if "notify_mut C os vr2 NullEvent t2 = Some (r, vr1, t1)" for vr1 vr2 t1 t2
    using notify_null [of C os vr2 t2] that by auto
  show ?thesis
  proof (cases "fsm_state (vr_fsm vr)")
    case Init
    with assms show ?thesis by (simp add: act_on_packet_def fsm_step_Init)
  next
    case Backup
    with assms show ?thesis
      by (auto simp: act_on_packet_def Let_def bind_eq_Some_conv set_timers set_advert step
          split: if_splits)
  next
    case Master
    with assms show ?thesis
      by (auto simp: act_on_packet_def Let_def bind_eq_Some_conv set_timers set_advert step
          split: if_splits dest!: null)
  qed
qed

lemma process_cases:
  assumes "\<not> poisoned mx"
    and "process_vrrp_packet C os payload src dst ttl mx tr = Some (r, mx', tr')"
  obtains (dropped) reason where "r = Inr ()" "mx' = mx"
      "tr' = log_drop (vr_name (guarded mx)) reason tr"
      "\<not> (\<exists>p. decode C payload src dst = Some (Inr p) \<and> accepts (guarded mx) p ttl)"
    | (no_interface) p where "r = Inr ()" "mx' = mx" "decode C payload src dst = Some (Inr p)"
      "accepts (guarded mx) p ttl" "family_interface (guarded mx) (addresses p) = None"
      "verify_packet (guarded mx) p ttl tr = (True, tr')"
    | (acted) p iface tr1 where "decode C payload src dst = Some (Inr p)"
      "accepts (guarded mx) p ttl" "family_interface (guarded mx) (addresses p) = Some iface"
      "verify_packet (guarded mx) p ttl tr = (True, tr1)"
      "act_on_packet C os (guarded mx) p iface (family_strings C (guarded mx) (addresses p)) tr1
         = Some (r, guarded mx', tr')"
      "mx' = mx\<lparr>guarded := guarded mx'\<rparr>"
proof -
  let ?vr = "guarded mx"
  from assms obtain d where d: "decode C payload src dst = Some d"
    by (auto simp: process_vrrp_packet_def Let_def bind_eq_Some_conv)
  show ?thesis
  proof (cases d)
    case (Inl err)
    with assms d show ?thesis
      by (intro dropped [of err]) (auto simp: process_vrrp_packet_def)
  next
    case (Inr p)
    note unfolded = process_vrrp_packet_def Let_def d Inr
    show ?thesis
    proof (cases "accepts ?vr p ttl")
      case False
      from verify_packet_refused [OF this, of tr] obtain reason where
        "verify_packet ?vr p ttl tr = (False, log_drop (vr_name ?vr) reason tr)" by blast
      with assms False d Inr show ?thesis
        by (intro dropped [of reason]) (auto simp: unfolded)
    next
      case True
      then obtain tr1 where v: "verify_packet ?vr p ttl tr = (True, tr1)"
        using verify_packet_accepted by blast
      show ?thesis
      proof (cases "family_interface ?vr (addresses p)")
        case None
        with assms v True d Inr show ?thesis
          by (intro no_interface [of p]) (auto simp: unfolded split: vrrp_addresses.splits)
      next
        case (Some iface)
        with assms v True d Inr show ?thesis
          by (cases "addresses p") (auto simp: unfolded bind_eq_Some_conv intro!: acted [of p iface tr1])
      qed
    qed
  qed
qed

lemma process_poisoned:
  "process_vrrp_packet C os payload src dst ttl mx tr = Some (r, mx', tr') \<Longrightarrow> poisoned mx' = poisoned mx"
proof (cases "poisoned mx")
  case False
  assume "process_vrrp_packet C os payload src dst ttl mx tr = Some (r, mx', tr')"
  with False show ?thesis
  proof (cases rule: process_cases)
    case (acted p iface tr1)
    then show ?thesis by (metis router_mutex.select_convs(2) router_mutex.surjective router_mutex.update_convs(1))
  qed simp_all
qed (simp add: process_vrrp_packet_def)

lemma process_step:
  assumes "timers_ok (guarded mx)" and "\<not> poisoned mx"
    and "process_vrrp_packet C os payload src dst ttl mx tr = Some (r, mx', tr')"
    and "decode C payload src dst = Some (Inr p)" and "accepts (guarded mx) p ttl"
    and "family_interface (guarded mx) (addresses p) \<noteq> None"
  shows "erase (guarded mx') = erase (fsm_step (os_now os tr') (Advert (priority p)) (guarded mx))"
  using assms(2,3)
proof (cases rule: process_cases)
  case (acted p' iface tr1)
  with act_on_packet_step [OF assms(1) acted(5)] assms(4) show ?thesis by simp
qed (use assms in auto)

text \<open>The router behind an unpoisoned mutex, as an operation on routers.\<close>

definition on_router ::
  "(router_mutex \<Rightarrow> trace \<Rightarrow> ('r \<times> router_mutex \<times> trace) option) \<Rightarrow>
   virtual_router \<Rightarrow> trace \<Rightarrow> (virtual_router \<times> trace) option" where
  "on_router f vr tr =
     map_option (\<lambda>(_, mx, tr). (guarded mx, tr)) (f \<lparr>guarded = vr, poisoned = False\<rparr> tr)"

lemma on_router_mutex:
  assumes "\<not> poisoned mx" and "f mx tr = Some (r, mx', tr')"
  shows "on_router f (guarded mx) tr = Some (guarded mx', tr')"
proof -
  have "mx = \<lparr>guarded = guarded mx, poisoned = False\<rparr>" using assms(1) by simp
  with assms(2) show ?thesis by (metis (no_types, lifting) case_prod_conv on_router_def option.simps(9))
qed

interpretation packet_op: fsm_operation
    "\<lambda>os. on_router (process_vrrp_packet C os payload src dst ttl)"
    "\<lambda>vr. {Advert (priority p) | p. decode C payload src dst = Some (Inr p) \<and> accepts vr p ttl}"
    for C payload src dst ttl
proof unfold_locales
  fix vr os tr vr' tr'
  let ?mx = "\<lparr>guarded = vr, poisoned = False\<rparr>"
  assume "router_ok vr" and "on_router (process_vrrp_packet C os payload src dst ttl) vr tr = Some (vr', tr')"
  then obtain r mx' where t: "timers_ok vr" and p: "process_vrrp_packet C os payload src dst ttl ?mx tr = Some (r, mx', tr')"
    and vr': "vr' = guarded mx'"
    using router_ok_timers by (auto simp: on_router_def)
  have "\<not> poisoned ?mx" by simp
  then show "erase vr' = erase vr \<or> (\<exists>i \<in> {Advert (priority p) | p. decode C payload src dst = Some (Inr p)
      \<and> accepts vr p ttl}. erase vr' = erase (fsm_step (os_now os tr') i vr))"
    using p
  proof (cases rule: process_cases)
    case (acted p iface tr1)
    then show ?thesis using act_on_packet_step [OF t] vr' by auto
  qed (use vr' in simp_all)
qed

section \<open>No packet makes the program panic\<close>

context wire_crates
begin

lemma act_on_packet_total:
  assumes "timers_ok vr"
  shows "\<exists>r vr' tr'. act_on_packet C os vr p iface strs tr = Some (r, vr', tr')"
proof -
  obtain tr1 where "send_advertisement C os vr tr = Some tr1"
    using send_advertisement_total by blast
  moreover have "\<exists>r v' t'. notify_mut C os v NullEvent t = Some (r, v', t')" for v t
    using notify_null [of C os v t] by blast
  ultimately show ?thesis
    by (cases "fsm_state (vr_fsm vr)")
      (simp_all add: act_on_packet_def Let_def set_timers [OF assms] set_advert)
qed

lemma process_total:
  assumes "timers_ok (guarded mx)"
  shows "\<exists>r mx' tr'. process_vrrp_packet C os payload src dst ttl mx tr = Some (r, mx', tr')"
proof -
  obtain d where d: "decode C payload src dst = Some d" using decode_total by blast
  show ?thesis
  proof (cases d)
    case (Inl err)
    with d show ?thesis by (simp add: process_vrrp_packet_def)
  next
    case (Inr p)
    obtain ok tr1 where v: "verify_packet (guarded mx) p ttl tr = (ok, tr1)" by fastforce
    have "\<exists>r vr' tr'. act_on_packet C os (guarded mx) p iface strs tr1 = Some (r, vr', tr')" for iface strs
      using act_on_packet_total [OF assms] by blast
    then have "\<exists>r mx' tr'. do { (r, vrouter, tr) \<leftarrow> act_on_packet C os (guarded mx) p iface strs tr1;
        Some (r, mx\<lparr>guarded := vrouter\<rparr>, tr) } = Some (r, mx', tr')" for iface strs
      by (metis (mono_tags, lifting) bind.bind_lunit case_prod_conv)
    with d Inr v show ?thesis
      by (cases ok)
        (auto simp: process_vrrp_packet_def Let_def split: vrrp_addresses.split option.split)
  qed
qed

end

section \<open>Who answers for the virtual addresses\<close>

text \<open>
  The only reason to answer an ARP packet: this router is the Master, its mac-vlan has a MAC
  address, and the packet is a request from someone else.
\<close>

definition arp_answerable :: "virtual_router \<Rightarrow> mac \<Rightarrow> arp_packet \<Rightarrow> bool" where
  "arp_answerable vr mac a \<longleftrightarrow>
     fsm_state (vr_fsm vr) = Master \<and> operation a = 1 \<and> sender_hw_address a \<noteq> mac"

definition arp_targets :: "virtual_router \<Rightarrow> arp_packet \<Rightarrow> ipv4_net list" where
  "arp_targets vr a = [ip \<leftarrow> vr_ipv4_addresses vr. octets4 (addr4 ip) = target_proto_address a]"

definition arp_replies :: "os \<Rightarrow> string \<Rightarrow> mac \<Rightarrow> eth_packet \<Rightarrow> arp_packet \<Rightarrow> 'a list \<Rightarrow> trace \<Rightarrow> trace" where
  "arp_replies os ifname mac eth a targets tr =
     foldl (\<lambda>tr _. send_packet_arp os ifname (arp_reply os mac eth a) tr) tr targets"

lemma foldl_filter: "foldl (\<lambda>tr x. if q x then f tr else tr) tr xs = foldl (\<lambda>tr _. f tr) tr (filter q xs)"
  by (induction xs arbitrary: tr) simp_all

lemma find_name: "find (\<lambda>i. if_name i = name) xs = Some i \<Longrightarrow> if_name i = name"
  by (auto simp: find_Some_iff)

lemma get_interface_name: "get_interface os name tr = Inr i \<Longrightarrow> if_name i = name"
  by (auto simp: get_interface_def dest: find_name split: option.splits)

lemma arp_handler_outcome:
  assumes "\<not> poisoned mx" and "get_interface os (vr_mac_vlan_interface_v4 (guarded mx)) tr = Inr i"
    and d: "arp_decode C (eth_payload eth) = Some d"
  shows "handle_incoming_arp_pkt C os eth mx tr = Some (Inr (),
     case (d, if_mac i) of
       (Some a, Some mac) \<Rightarrow>
         if arp_answerable (guarded mx) mac a
         then arp_replies os (vr_mac_vlan_interface_v4 (guarded mx)) mac eth a
                (arp_targets (guarded mx) a) tr
         else tr
     | _ \<Rightarrow> tr)"
proof (cases d)
  case None
  with assms show ?thesis by (simp add: handle_incoming_arp_pkt_def Let_def)
next
  case (Some a)
  show ?thesis
  proof (cases "if_mac i")
    case None
    with assms Some show ?thesis by (simp add: handle_incoming_arp_pkt_def Let_def)
  next
    case (Some mac)
    with assms \<open>d = Some a\<close> get_interface_name [OF assms(2)] show ?thesis
      by (cases "fsm_state (vr_fsm (guarded mx))")
        (auto simp: handle_incoming_arp_pkt_def Let_def arp_answerable_def arp_replies_def
          arp_targets_def foldl_filter)
  qed
qed

context wire_crates
begin

lemma arp_handler_total: "\<exists>r tr'. handle_incoming_arp_pkt C os eth mx tr = Some (r, tr')"
proof (cases "poisoned mx")
  case True
  then show ?thesis by (simp add: handle_incoming_arp_pkt_def)
next
  case False
  then show ?thesis
    using arp_handler_outcome [of mx os tr _ C eth] arp_decode_closed [of "eth_payload eth"]
    by (cases "get_interface os (vr_mac_vlan_interface_v4 (guarded mx)) tr")
      (auto simp: handle_incoming_arp_pkt_def Let_def)
qed

lemma ndp_handler_total: "\<exists>r tr'. handle_incoming_ndp_pkt C os payload src mx tr = Some (r, tr')"
proof -
  have "\<exists>r tr'. do { tr \<leftarrow> send_neighbor_advertisement C os ifname target na tr;
      Some (Inr () :: net_error + unit, tr) } = Some (r, tr')" for ifname target na tr
    using send_na_total by (metis bind.bind_lunit)
  then show ?thesis
    by (auto simp: handle_incoming_ndp_pkt_def Let_def split: option.split sum.split)
qed

end

lemma arp_handler_poisoned: "poisoned mx \<Longrightarrow> handle_incoming_arp_pkt C os eth mx tr = Some (Inl LockPoisoned, tr)"
  by (simp add: handle_incoming_arp_pkt_def)



text \<open>
  A solicitation is answered by the Master alone, for an address of its own.
\<close>

lemma ndp_handler_silent:
  assumes "handle_incoming_ndp_pkt C os payload src mx tr = Some (r, tr')" and "tr' \<noteq> tr"
  obtains v6 target i mac where "\<not> poisoned mx" "fsm_state (vr_fsm (guarded mx)) = Master"
    "vr_mac_vlan_interface_v6 (guarded mx) = Some v6" "ns_decode payload = Some target"
    "target \<in> set (ipv6_addrs (guarded mx))" "get_interface os v6 tr = Inr i" "if_mac i = Some mac"
    "send_neighbor_advertisement C os v6 target
       \<lparr>na_target_address = target, na_target_link_addr = mac, na_override_flag = True\<rparr> tr = Some tr'"
  using assms
  by (auto simp: handle_incoming_ndp_pkt_def Let_def list_ex_iff ipv6_addrs_def bind_eq_Some_conv
      split: if_splits option.splits sum.splits)

section \<open>Effects of the handlers\<close>

context socket_discipline
begin

lemma ext_arp_handler:
  assumes "handle_incoming_arp_pkt C os eth mx tr = Some (r, tr')"
  shows "extends Q tr tr'"
proof (cases "poisoned mx \<or> (\<exists>err. get_interface os (vr_mac_vlan_interface_v4 (guarded mx)) tr = Inl err)")
  case True
  with assms show ?thesis
    by (cases "poisoned mx") (auto simp: handle_incoming_arp_pkt_def Let_def ext_refl)
next
  case False
  then obtain i where i: "\<not> poisoned mx"
    "get_interface os (vr_mac_vlan_interface_v4 (guarded mx)) tr = Inr i"
    by (cases "get_interface os (vr_mac_vlan_interface_v4 (guarded mx)) tr") auto
  with assms obtain d where d: "arp_decode C (eth_payload eth) = Some d"
    by (auto simp: handle_incoming_arp_pkt_def Let_def bind_eq_Some_conv)
  have "extends Q tr (arp_replies os n mac eth a targets tr)" for n mac a and targets :: "ipv4_net list"
    unfolding arp_replies_def by (rule ext_foldl) (rule ext_send_arp)
  then show ?thesis
    using assms arp_handler_outcome [OF i d]
    by (auto simp: ext_refl split: option.splits if_splits)
qed

lemma ext_ndp_handler:
  assumes "handle_incoming_ndp_pkt C os payload src mx tr = Some (r, tr')"
  shows "extends Q tr tr'"
proof (cases "tr' = tr")
  case True
  then show ?thesis by (simp add: ext_refl)
next
  case False
  with assms show ?thesis by (rule ndp_handler_silent) (rule ext_send_na)
qed

end

locale turn_discipline = link_discipline +
  assumes drop: "Q [LogDrop level name reason]"
begin

lemma ext_log_drop: "extends Q tr (log_drop name reason tr)"
  unfolding log_drop_def by (rule ext_snoc [OF ext_refl drop])

lemma ext_verify_packet: "verify_packet vr p ttl tr = (ok, tr') \<Longrightarrow> extends Q tr tr'"
  using verify_packet_accepted [of vr p ttl tr] verify_packet_refused [of vr p ttl tr]
  by (cases "accepts vr p ttl") (auto simp: ext_refl ext_log_drop)

lemma ext_act_on_packet:
  assumes "act_on_packet C os vr p iface strs tr = Some (r, vr', tr')"
  shows "extends Q tr tr'"
proof -
  have null: "extends Q tr t1" if "notify_mut C os vr2 NullEvent t2 = Some (r, vr1, t1)"
    "extends Q tr t2" for vr1 vr2 t1 t2
    using notify_null [of C os vr2 t2] that by auto
  show ?thesis
    using assms
    by (auto simp: act_on_packet_def Let_def bind_eq_Some_conv ext_refl
        intro: ext_virtual_address_action ext_send_advertisement null split: state.splits if_splits)
qed

lemma ext_process_vrrp_packet:
  assumes "process_vrrp_packet C os payload src dst ttl mx tr = Some (r, mx', tr')"
  shows "extends Q tr tr'"
proof (cases "poisoned mx")
  case True
  with assms show ?thesis by (simp add: process_vrrp_packet_def ext_refl)
next
  case False
  from this assms show ?thesis
  proof (cases rule: process_cases)
    case dropped
    then show ?thesis by (simp add: ext_log_drop)
  next
    case no_interface
    then show ?thesis using ext_verify_packet by blast
  next
    case acted
    then show ?thesis using ext_trans [OF ext_verify_packet ext_act_on_packet] by blast
  qed
qed

end

interpretation hops_turn: turn_discipline "hops_set False"
  by unfold_locales simp

interpretation kept_turn: turn_discipline "list_all keeps_links"
  by unfold_locales simp

section \<open>Which addresses a packet moves\<close>

text \<open>The virtual addresses of the family of a packet.\<close>

fun family_nets :: "virtual_router \<Rightarrow> vrrp_addresses \<Rightarrow> ip_net list" where
  "family_nets vr (AddrsV4 _) = map NetV4 (vr_ipv4_addresses vr)"
| "family_nets vr (AddrsV6 _) = map NetV6 (vr_ipv6_addresses vr)"

text \<open>The address requests that go with a change of state caused by a packet of a family.\<close>

definition family_move :: "os \<Rightarrow> virtual_router \<Rightarrow> virtual_router \<Rightarrow> vrrp_addresses \<Rightarrow> trace" where
  "family_move os vr vr' a =
     (case family_interface vr a of
        None \<Rightarrow> []
      | Some iface \<Rightarrow>
          (case (fsm_state (vr_fsm vr), fsm_state (vr_fsm vr')) of
             (Backup, Master) \<Rightarrow> link_requests os Add iface (family_nets vr a)
           | (Master, Backup) \<Rightarrow> link_requests os Delete iface (family_nets vr a)
           | _ \<Rightarrow> []))"

lemma family_move_same [simp]: "family_move os vr vr a = []"
  by (simp add: family_move_def split: option.split state.split)

lemma addr_requests_log [simp]: "addr_requests (log_drop name reason tr) = addr_requests tr"
  by (simp add: log_drop_def)

lemma addr_requests_verify: "verify_packet vr p ttl tr = (True, tr') \<Longrightarrow> addr_requests tr' = addr_requests tr"
  using verify_packet_accepts [of vr p ttl tr] verify_packet_accepted [of vr p ttl tr] by auto

lemma settled_verified:
  assumes "verify_packet vr p ttl tr = (True, tr')" and "settled base os tr"
  shows "settled base os tr'"
proof -
  have "extends (\<lambda>_. True) tr tr'"
    using assms(1) by (auto simp: verify_packet_def log_drop_def extends_def Let_def
        split: if_splits vrrp_addresses.splits)
  then show ?thesis using assms(2) by (rule settled_extends)
qed

context ip_text
begin

lemma family_requests:
  assumes "settled base os tr" and "nets_ok vr"
  shows "addr_requests (virtual_address_action C os action (family_strings C vr a) iface tr)
       = addr_requests tr @ link_requests base action iface (family_nets vr a)"
proof (cases a)
  case (AddrsV4 addrs)
  have "list_all net_ok4 (vr_ipv4_addresses vr)" using assms(2) by (simp add: nets_ok_def)
  from requests_v4 [OF assms(1) this] show ?thesis
    unfolding AddrsV4 family_strings.simps family_nets.simps str_ipv4_addresses_def .
next
  case (AddrsV6 addrs)
  have "list_all net_ok6 (vr_ipv6_addresses vr)" using assms(2) by (simp add: nets_ok_def)
  from requests_v6 [OF assms(1) this] show ?thesis
    unfolding AddrsV6 family_strings.simps family_nets.simps str_ipv6_addresses_def .
qed

lemma act_on_packet_requests:
  assumes "settled base os tr" and "nets_ok vr" and "timers_ok vr"
    and "family_interface vr (addresses p) = Some iface"
    and "act_on_packet C os vr p iface (family_strings C vr (addresses p)) tr = Some (r, vr', tr')"
  shows "addr_requests tr' = addr_requests tr @ family_move base vr vr' (addresses p)"
proof -
  let ?act = "\<lambda>action. virtual_address_action C os action (family_strings C vr (addresses p)) iface tr"
  have null: "vr1 = vr2 \<and> t1 = t2" if "notify_mut C os vr2 NullEvent t2 = Some (r, vr1, t1)" for vr1 vr2 t1 t2
    using notify_null [of C os vr2 t2] that by auto
  have adv: "addr_requests t1 = addr_requests tr" if "send_advertisement C os vr tr = Some t1" for t1
    using addr_requests_sock [OF sock.ext_send_advertisement [OF that]] .
  show ?thesis
  proof (cases "fsm_state (vr_fsm vr)")
    case Init
    with assms(5) show ?thesis by (simp add: act_on_packet_def family_move_def split: option.split)
  next
    case Backup
    with assms(3,5) have "fsm_state (vr_fsm vr') = Backup \<and> tr' = tr
        \<or> fsm_state (vr_fsm vr') = Master \<and> tr' = ?act Add"
      by (auto simp: act_on_packet_def Let_def bind_eq_Some_conv set_timers set_advert split: if_splits)
    with Backup family_requests [OF assms(1,2)] assms(4) show ?thesis by (auto simp: family_move_def)
  next
    case Master
    with assms(3,5) have "fsm_state (vr_fsm vr') = Master \<and> (tr' = tr \<or> send_advertisement C os vr tr = Some tr')
        \<or> fsm_state (vr_fsm vr') = Backup \<and> tr' = ?act Delete"
      by (auto simp: act_on_packet_def Let_def bind_eq_Some_conv set_timers set_advert
          split: if_splits dest!: null)
    with Master family_requests [OF assms(1,2)] adv assms(4) show ?thesis by (auto simp: family_move_def)
  qed
qed

lemma process_requests:
  assumes "settled base os tr" and "nets_ok (guarded mx)" and "timers_ok (guarded mx)" and "\<not> poisoned mx"
    and "process_vrrp_packet C os payload src dst ttl mx tr = Some (r, mx', tr')"
  shows "addr_requests tr' = addr_requests tr @
    (case decode C payload src dst of
       Some (Inr p) \<Rightarrow> family_move base (guarded mx) (guarded mx') (addresses p)
     | _ \<Rightarrow> [])"
  using assms(4,5)
proof (cases rule: process_cases)
  case dropped
  then show ?thesis by (simp split: option.split sum.split)
next
  case no_interface
  then show ?thesis using addr_requests_verify by simp
next
  case acted
  then show ?thesis
    using act_on_packet_requests [OF settled_verified [OF acted(4) assms(1)] assms(2,3) acted(3,5)]
      addr_requests_verify [OF acted(4)] by simp
qed

end

section \<open>Properties of the handlers\<close>

text \<open>An advertisement of a router configured like the example, with a given priority.\<close>

definition example_packet :: "u8 \<Rightarrow> vrrp_packet" where
  "example_packet prio = \<lparr>version = V2, vrid = 51, priority = prio, adver_int_cs = 100,
     addresses = AddrsV4 [ipv4_new 10 0 0 1]\<rparr>"

lemma example_decodes:
  "\<exists>b. \<forall>s d. decode list_crates b (IpV4 s) d = Some (Inr (example_packet prio))"
proof -
  obtain b where b: "encode list_crates (example_packet prio) (IpV4 0) = Some b"
    using lc.encode_total by blast
  have "decode list_crates b (IpV4 s) d = Some (Inr (example_packet prio))" for s d
    by (rule lc.decode_encode_v4 [where addrs = "[ipv4_new 10 0 0 1]", OF _ _ _ b])
      (simp_all add: example_packet_def)
  then show ?thesis by blast
qed

lemma example_accepted [simp]: "accepts (example_in s) (example_packet prio) 255"
  by (simp add: accepts_def example_packet_def adver_int_of_def ipv4_addrs_def example_net_def)

text \<open>C3: The packet handler implements the protocol. If the bytes decode to a packet
  that passes the checks and the router has an interface for its family, then the router
  takes exactly the protocol's step for an advertisement of that priority, at the time of the
  last effect; in every other case it is unchanged. Configured fields never change, and the
  mutex is not poisoned.\<close>

theorem packet_refines:
  assumes "timers_ok (guarded mx)" and "\<not> poisoned mx"
    and "process_vrrp_packet C os payload src dst ttl mx tr = Some (r, mx', tr')"
  shows "\<not> poisoned mx' \<and>
    (case decode C payload src dst of
       Some (Inr p) \<Rightarrow>
         if accepts (guarded mx) p ttl \<and> family_interface (guarded mx) (addresses p) \<noteq> None
         then erase (guarded mx') = erase (fsm_step (os_now os tr') (Advert (priority p)) (guarded mx))
         else mx' = mx
     | _ \<Rightarrow> mx' = mx)"
  using assms(2,3)
proof (cases rule: process_cases)
  case (dropped reason)
  with assms(2) show ?thesis by (auto split: option.split sum.split)
next
  case (no_interface p)
  with assms(2) show ?thesis by simp
next
  case (acted p iface tr1)
  have "\<not> poisoned mx'"
    using acted(6) assms(2) by (metis router_mutex.select_convs(2) router_mutex.surjective router_mutex.update_convs(1))
  with acted act_on_packet_step [OF assms(1) acted(5)] show ?thesis by simp
qed

lemma example_process:
  "\<exists>r mx' tr'. process_vrrp_packet list_crates (example_os now) b (IpV4 1) (IpV4 2) 255
    \<lparr>guarded = example_in s, poisoned = False\<rparr> [] = Some (r, mx', tr')"
  by (rule lc.process_total) simp

theorem packet_refines_witness:
  "\<exists>b r mx' tr'. process_vrrp_packet list_crates (example_os 3) b (IpV4 1) (IpV4 2) 255
       \<lparr>guarded = example_in Backup, poisoned = False\<rparr> [] = Some (r, mx', tr')
     \<and> erase (guarded mx') = erase (fsm_step 3 (Advert 200) (example_in Backup))"
proof -
  obtain b where b: "\<And>s d. decode list_crates b (IpV4 s) d = Some (Inr (example_packet 200))"
    using example_decodes by blast
  obtain r mx' tr' where s: "process_vrrp_packet list_crates (example_os 3) b (IpV4 1) (IpV4 2) 255
    \<lparr>guarded = example_in Backup, poisoned = False\<rparr> [] = Some (r, mx', tr')"
    using example_process by blast
  from packet_refines [OF _ _ s] b have
    "erase (guarded mx') = erase (fsm_step 3 (Advert 200) (example_in Backup))"
    by (simp add: example_packet_def [of 200] example_accepted [unfolded example_packet_def])
  with s show ?thesis by blast
qed

text \<open>The checks let an advertisement pass exactly when its TTL is 255, its VRID and its
  interval are the configured ones, and either its sender claims to own the addresses
  (priority 255) or its address list is as long as the configured list of its family and names
  only configured addresses. The protocol version is not compared.\<close>

theorem acceptance:
  "fst (verify_packet vr p ttl tr) \<longleftrightarrow>
     ttl = 255 \<and> vrid p = vr_vrid vr
     \<and> adver_int_cs p = ucast (vr_advert_interval vr) * 100
     \<and> (priority p = 255
        \<or> (case addresses p of
             AddrsV4 addrs \<Rightarrow> length addrs = length (vr_ipv4_addresses vr) \<and> set addrs \<subseteq> set (ipv4_addrs vr)
           | AddrsV6 addrs \<Rightarrow> length addrs = length (vr_ipv6_addresses vr) \<and> set addrs \<subseteq> set (ipv6_addrs vr)))"
  unfolding verify_packet_accepts accepts_def adver_int_of_def by (cases "addresses p") simp_all

text \<open>C23: A packet that does not decode or does not pass the checks changes nothing
  and is logged exactly once; no error is reported to the task.\<close>

theorem refused_packet:
  assumes "\<not> poisoned mx" and "decode C payload src dst = Some d"
    and "case d of Inr p \<Rightarrow> \<not> accepts (guarded mx) p ttl | Inl _ \<Rightarrow> True"
  shows "\<exists>reason. process_vrrp_packet C os payload src dst ttl mx tr =
    Some (Inr (), mx, tr @ [LogDrop (drop_level reason) (vr_name (guarded mx)) reason])
    \<and> (\<forall>e. d = Inl e \<longrightarrow> reason = e)"
proof (cases d)
  case (Inl e)
  with assms show ?thesis by (simp add: process_vrrp_packet_def log_drop_def)
next
  case (Inr p)
  with assms(3) have "\<not> accepts (guarded mx) p ttl" by simp
  from verify_packet_refused [OF this, of tr] obtain reason where
    "verify_packet (guarded mx) p ttl tr = (False, log_drop (vr_name (guarded mx)) reason tr)" by blast
  with assms Inr show ?thesis
    by (intro exI [of _ reason]) (simp add: process_vrrp_packet_def log_drop_def)
qed

theorem refused_packet_witness:
  "process_vrrp_packet list_crates (example_os 3) [] (IpV4 1) (IpV4 2) 255
     \<lparr>guarded = example_in Master, poisoned = False\<rparr> [] =
   Some (Inr (), \<lparr>guarded = example_in Master, poisoned = False\<rparr>, [LogDrop Error ''VR_1'' Malformed])"
  using refused_packet [of "\<lparr>guarded = example_in Master, poisoned = False\<rparr>" list_crates "[]" "IpV4 1"
      "IpV4 2" "Inl Malformed" 255 "example_os 3" "[]"]
  by (simp add: decode_def decode_v4_def)

text \<open>An advertisement whose source is an address of any local interface is
  ignored before it is even decoded, over both families: a router never reacts to itself.\<close>

theorem own_packets_ignored:
  assumes "i \<in> set (os_interfaces os tr)" and "src \<in> set (if_ips i)"
  shows "(\<forall>ip. src = IpV4 (ip_source ip) \<longrightarrow>
            handle_incoming_vrrp_v4_pkt C os ip mx tr = Some (Inr (), mx, tr))
       \<and> (\<forall>a payload. src = IpV6 a \<longrightarrow>
            handle_incoming_vrrp_v6_pkt C os payload a mx tr = Some (Inr (), mx, tr))"
proof -
  have "is_local_source os src tr" using assms by (auto simp: is_local_source_def list_ex_iff)
  then show ?thesis by (auto simp: handle_incoming_vrrp_v4_pkt_def handle_incoming_vrrp_v6_pkt_def)
qed

theorem own_packets_ignored_witness:
  "handle_incoming_vrrp_v4_pkt list_crates (example_os 0)
     \<lparr>ip_source = ipv4_new 10 0 0 2, ip_destination = 0, ip_ttl = 255, ip_payload = [1]\<rparr>
     \<lparr>guarded = example_in Master, poisoned = False\<rparr> [] =
   Some (Inr (), \<lparr>guarded = example_in Master, poisoned = False\<rparr>, [])"
proof -
  have i: "\<lparr>if_name = ''eth0'', if_mac = Some [2, 0, 0, 0, 0, 1], if_ips = [IpV4 (ipv4_new 10 0 0 2)]\<rparr>
      \<in> set (os_interfaces (example_os 0) [])"
    by (simp add: example_os_def example_interfaces_def)
  from own_packets_ignored [OF i, of "IpV4 (ipv4_new 10 0 0 2)" list_crates] show ?thesis by simp
qed




text \<open>C22: A Neighbor Solicitation has an effect only on the Master, only for one of its own
  virtual IPv6 addresses; the effect is then the sending of one Neighbor Advertisement for
  that address with the MAC of the IPv6 mac-vlan. Conversely a Master whose IPv6 mac-vlan has a
  MAC answers every such solicitation without an error. It never panics.\<close>

theorem ndp_answers:
  assumes "wire_crates C"
  shows "\<exists>r tr'. handle_incoming_ndp_pkt C os payload src mx tr = Some (r, tr')
    \<and> (tr' \<noteq> tr \<longrightarrow> \<not> poisoned mx \<and> fsm_state (vr_fsm (guarded mx)) = Master
         \<and> (\<exists>v6 target i mac. vr_mac_vlan_interface_v6 (guarded mx) = Some v6
              \<and> ns_decode payload = Some target \<and> target \<in> set (ipv6_addrs (guarded mx))
              \<and> get_interface os v6 tr = Inr i \<and> if_mac i = Some mac
              \<and> send_neighbor_advertisement C os v6 target \<lparr>na_target_address = target,
                   na_target_link_addr = mac, na_override_flag = True\<rparr> tr = Some tr'))
    \<and> (\<not> poisoned mx \<and> fsm_state (vr_fsm (guarded mx)) = Master
         \<and> vr_mac_vlan_interface_v6 (guarded mx) = Some v6' \<and> ns_decode payload = Some target'
         \<and> target' \<in> set (ipv6_addrs (guarded mx)) \<and> get_interface os v6' tr = Inr i'
         \<and> if_mac i' = Some mac' \<longrightarrow>
       r = Inr () \<and> send_neighbor_advertisement C os v6' target' \<lparr>na_target_address = target',
                   na_target_link_addr = mac', na_override_flag = True\<rparr> tr = Some tr')"
proof -
  obtain r tr' where h: "handle_incoming_ndp_pkt C os payload src mx tr = Some (r, tr')"
    using wire_crates.ndp_handler_total [OF assms] by blast
  moreover have "\<not> poisoned mx \<and> fsm_state (vr_fsm (guarded mx)) = Master
     \<and> (\<exists>v6 target i mac. vr_mac_vlan_interface_v6 (guarded mx) = Some v6
          \<and> ns_decode payload = Some target \<and> target \<in> set (ipv6_addrs (guarded mx))
          \<and> get_interface os v6 tr = Inr i \<and> if_mac i = Some mac
          \<and> send_neighbor_advertisement C os v6 target \<lparr>na_target_address = target,
               na_target_link_addr = mac, na_override_flag = True\<rparr> tr = Some tr')" if "tr' \<noteq> tr"
    using h that by (rule ndp_handler_silent) blast
  moreover have "r = Inr () \<and> send_neighbor_advertisement C os v6' target' \<lparr>na_target_address = target',
        na_target_link_addr = mac', na_override_flag = True\<rparr> tr = Some tr'"
    if "\<not> poisoned mx \<and> fsm_state (vr_fsm (guarded mx)) = Master
         \<and> vr_mac_vlan_interface_v6 (guarded mx) = Some v6' \<and> ns_decode payload = Some target'
         \<and> target' \<in> set (ipv6_addrs (guarded mx)) \<and> get_interface os v6' tr = Inr i'
         \<and> if_mac i' = Some mac'"
    using h that by (auto simp: handle_incoming_ndp_pkt_def Let_def list_ex_iff ipv6_addrs_def bind_eq_Some_conv split: if_splits)
  ultimately show ?thesis by blast
qed

theorem ndp_answers_witness:
  "\<exists>tr'. handle_incoming_ndp_pkt list_crates (example_os 0) ([135, 0, 0, 0, 0, 0, 0, 0] @ octets6 5) 9
      \<lparr>guarded = (example_in Master)\<lparr>vr_mac_vlan_interface_v6 := Some ''eth0'',
          vr_ipv6_addresses := [\<lparr>addr6 = 5, prefix_len6 = 64\<rparr>]\<rparr>, poisoned = False\<rparr> [] = Some (Inr (), tr')
    \<and> send_neighbor_advertisement list_crates (example_os 0) ''eth0'' 5 \<lparr>na_target_address = 5,
        na_target_link_addr = [2, 0, 0, 0, 0, 1], na_override_flag = True\<rparr> [] = Some tr'"
proof -
  let ?vr = "(example_in Master)\<lparr>vr_mac_vlan_interface_v6 := Some ''eth0'',
          vr_ipv6_addresses := [\<lparr>addr6 = 5, prefix_len6 = 64\<rparr>]\<rparr>"
  let ?i = "\<lparr>if_name = ''eth0'', if_mac = Some [2, 0, 0, 0, 0, 1], if_ips = [IpV4 (ipv4_new 10 0 0 2)]\<rparr>"
  have "ns_decode ([135, 0, 0, 0, 0, 0, 0, 0] @ octets6 5) = Some 5"
    by (simp add: ns_decode_def NS_TYPE_def)
  moreover have "get_interface (example_os 0) ''eth0'' [] = Inr ?i"
    by (simp add: get_interface_def example_os_def example_interfaces_def)
  moreover have "5 \<in> set (ipv6_addrs ?vr)" by (simp add: ipv6_addrs_def)
  ultimately show ?thesis
    using ndp_answers [OF lc.wire_crates_axioms, of "example_os 0" "[135, 0, 0, 0, 0, 0, 0, 0] @ octets6 5" 9
        "\<lparr>guarded = ?vr, poisoned = False\<rparr>" "[]" "''eth0''" 5 ?i "[2, 0, 0, 0, 0, 1]"]
    by auto
qed

text \<open>C16: The version of an advertisement plays no role once it is decoded: two packets that
  differ in their version only have exactly the same effect on a router. So an instance of one
  version obeys the advertisements of the other version, although the configuration allows
  one VRID to serve one instance of each version on one interface.\<close>

theorem version_ignored:
  assumes "decode C b1 s1 d1 = Some (Inr p)" and "decode C b2 s2 d2 = Some (Inr (p\<lparr>version := v\<rparr>))"
  shows "process_vrrp_packet C os b1 s1 d1 ttl mx tr = process_vrrp_packet C os b2 s2 d2 ttl mx tr"
proof -
  have "verify_packet vr (p\<lparr>version := v\<rparr>) t tr = verify_packet vr p t tr" for vr t tr
    by (cases p) (simp only: verify_packet_def vrrp_packet.simps)
  moreover have "act_on_packet C os vr (p\<lparr>version := v\<rparr>) i as tr = act_on_packet C os vr p i as tr"
    for vr i as tr
    by (cases p) (simp only: act_on_packet_def vrrp_packet.simps)
  moreover have "addresses (p\<lparr>version := v\<rparr>) = addresses p" by simp
  ultimately show ?thesis
    by (simp only: process_vrrp_packet_def Let_def assms bind.bind_lunit sum.case)
qed

theorem version_ignored_witness:
  "\<exists>b2 b3. decode list_crates b2 (IpV4 1) (IpV4 2) = Some (Inr (example_packet 200))
    \<and> decode list_crates b3 (IpV4 1) (IpV4 2) = Some (Inr ((example_packet 200)\<lparr>version := V3\<rparr>))
    \<and> process_vrrp_packet list_crates (example_os 3) b2 (IpV4 1) (IpV4 2) 255
        \<lparr>guarded = example_in Master, poisoned = False\<rparr> []
      = process_vrrp_packet list_crates (example_os 3) b3 (IpV4 1) (IpV4 2) 255
        \<lparr>guarded = example_in Master, poisoned = False\<rparr> []"
proof -
  let ?p3 = "(example_packet 200)\<lparr>version := V3\<rparr>"
  obtain b2 where b2: "\<And>s d. decode list_crates b2 (IpV4 s) d = Some (Inr (example_packet 200))"
    using example_decodes by blast
  obtain b3 where b: "encode list_crates ?p3 (IpV4 0) = Some b3"
    using lc.encode_total by blast
  have b3: "decode list_crates b3 (IpV4 1) (IpV4 2) = Some (Inr ?p3)"
    by (rule lc.decode_encode_v4 [where addrs = "[ipv4_new 10 0 0 1]", OF _ _ _ b])
      (simp_all add: example_packet_def)
  from version_ignored [OF b2 b3] b2 b3 show ?thesis by blast
qed

text \<open>C34: A Master that hears, past the filter of its own addresses, an acceptable advertisement
  of its own priority becomes Backup if that priority is not 0, whatever the addresses of the
  two senders: of two Masters with equal non-zero priority that hear each other, both step
  down. With priority 0, which the configuration allows, it stays Master, and so do both. RFC
  3768 section 6.4.3 lets exactly one of two such Masters, the one with the greater primary
  address, stay Master.\<close>

theorem equal_masters_both_yield:
  assumes "timers_ok (guarded mx)" and "\<not> poisoned mx"
    and "fsm_state (vr_fsm (guarded mx)) = Master"
    and "decode C payload src dst = Some (Inr p)" and "accepts (guarded mx) p ttl"
    and "family_interface (guarded mx) (addresses p) \<noteq> None"
    and "priority p = vr_priority (guarded mx)"
    and "process_vrrp_packet C os payload src dst ttl mx tr = Some (r, mx', tr')"
  shows "fsm_state (vr_fsm (guarded mx')) = (if priority p = 0 then Master else Backup)"
  using erase_eq(3) [OF process_step [OF assms(1,2,8,4,5,6)]] assms(3,7) by (simp add: fsm_step_state)

theorem equal_masters_both_yield_witness:
  "\<exists>b r mx' tr'. process_vrrp_packet list_crates (example_os 3) b (IpV4 1) (IpV4 2) 255
       \<lparr>guarded = example_in Master, poisoned = False\<rparr> [] = Some (r, mx', tr')
     \<and> fsm_state (vr_fsm (guarded mx')) = Backup"
proof -
  obtain b where b: "\<And>s d. decode list_crates b (IpV4 s) d = Some (Inr (example_packet 100))"
    using example_decodes by blast
  obtain r mx' tr' where s: "process_vrrp_packet list_crates (example_os 3) b (IpV4 1) (IpV4 2) 255
    \<lparr>guarded = example_in Master, poisoned = False\<rparr> [] = Some (r, mx', tr')"
    using example_process by blast
  from equal_masters_both_yield [OF _ _ _ b _ _ _ s] have "fsm_state (vr_fsm (guarded mx')) = Backup"
    by (simp add: example_packet_def example_accepted [unfolded example_packet_def])
  with s show ?thesis by blast
qed

text \<open>A preempting Backup that hears a lower priority: the state and the silence.\<close>

lemma takes_over_silently:
  assumes "timers_ok (guarded mx)" and "\<not> poisoned mx"
    and "fsm_state (vr_fsm (guarded mx)) = Backup" and "vr_preempt_mode (guarded mx)"
    and "decode C payload src dst = Some (Inr p)" and "accepts (guarded mx) p ttl"
    and "family_interface (guarded mx) (addresses p) \<noteq> None"
    and "priority p < vr_priority (guarded mx)" and "priority p \<noteq> 0"
    and "process_vrrp_packet C os payload src dst ttl mx tr = Some (r, mx', tr')"
  shows "fsm_state (vr_fsm (guarded mx')) = Master \<and> payloads tr' = payloads tr"
  using assms(2,10)
proof (cases rule: process_cases)
  case (acted p' iface tr1)
  have p': "p' = p" using acted(1) assms(5) by simp
  have "priority p \<noteq> 255"
    using assms(8) unat_lt_256 [of "vr_priority (guarded mx)"] by (auto simp: word_less_nat_alt)
  then have "payloads tr1 = payloads tr"
    using verify_packet_accepted [OF acted(2), of tr] acted(4) p' by auto
  moreover from acted(5) p' assms(1,3,4,8,9) have "payloads tr' = payloads tr1"
    by (auto simp: act_on_packet_def Let_def set_advert bind_eq_Some_conv split: if_splits)
  moreover have "fsm_state (vr_fsm (guarded mx')) = Master"
    using erase_eq(3) [OF act_on_packet_step [OF assms(1) acted(5)]] p' assms(3,4,8,9)
    by (simp add: fsm_step_state)
  ultimately show ?thesis by simp
qed (use assms in auto)

text \<open>C35: A preempting Backup that accepts an advertisement of a lower, non-zero
  priority becomes Master at once, without sending an advertisement, a gratuitous ARP or a
  Neighbor Advertisement. (RFC 3768 section 6.4.2 discards such an advertisement and waits for
  the timer, whose expiry announces the new Master.)\<close>

theorem silent_takeover:
  assumes "timers_ok (guarded mx)" and "\<not> poisoned mx"
    and "fsm_state (vr_fsm (guarded mx)) = Backup" and "vr_preempt_mode (guarded mx)"
    and "decode C payload src dst = Some (Inr p)" and "accepts (guarded mx) p ttl"
    and "family_interface (guarded mx) (addresses p) \<noteq> None"
    and "priority p < vr_priority (guarded mx)" and "priority p \<noteq> 0"
    and "process_vrrp_packet C os payload src dst ttl mx tr = Some (r, mx', tr')"
  shows "fsm_state (vr_fsm (guarded mx')) = Master \<and> payloads tr' = payloads tr"
  by (rule takes_over_silently [OF assms])

theorem silent_takeover_witness:
  "\<exists>b r mx' tr'. process_vrrp_packet list_crates (example_os 3) b (IpV4 1) (IpV4 2) 255
       \<lparr>guarded = example_in Backup, poisoned = False\<rparr> [] = Some (r, mx', tr')
     \<and> fsm_state (vr_fsm (guarded mx')) = Master \<and> payloads tr' = []"
proof -
  obtain b where b: "\<And>s d. decode list_crates b (IpV4 s) d = Some (Inr (example_packet 50))"
    using example_decodes by blast
  obtain r mx' tr' where s: "process_vrrp_packet list_crates (example_os 3) b (IpV4 1) (IpV4 2) 255
    \<lparr>guarded = example_in Backup, poisoned = False\<rparr> [] = Some (r, mx', tr')"
    using example_process by blast
  from silent_takeover [OF _ _ _ _ b _ _ _ _ s]
  have "fsm_state (vr_fsm (guarded mx')) = Master \<and> payloads tr' = []"
    by (simp add: example_packet_def example_accepted [unfolded example_packet_def])
  with s show ?thesis by auto
qed

text \<open>C38: On an undisturbed system a packet moves addresses only with a change between Backup
  and Master, and then exactly those of its own address family: they are added on the way to
  Master and removed on the way to Backup. The addresses of the other family are left as they
  are, although the state belongs to both.\<close>

theorem packet_addresses:
  assumes "ip_text C" and "undisturbed os" and "nets_ok (guarded mx)" and "timers_ok (guarded mx)"
    and "\<not> poisoned mx"
    and "process_vrrp_packet C os payload src dst ttl mx tr = Some (r, mx', tr')"
  shows "addr_requests tr' = addr_requests tr @
    (case decode C payload src dst of
       Some (Inr p) \<Rightarrow>
         (case (family_interface (guarded mx) (addresses p), fsm_state (vr_fsm (guarded mx)),
                fsm_state (vr_fsm (guarded mx'))) of
            (Some iface, Backup, Master) \<Rightarrow> link_requests os Add iface (family_nets (guarded mx) (addresses p))
          | (Some iface, Master, Backup) \<Rightarrow> link_requests os Delete iface (family_nets (guarded mx) (addresses p))
          | _ \<Rightarrow> [])
     | _ \<Rightarrow> [])"
  using ip_text.process_requests [OF assms(1) undisturbed_settled [OF assms(2)] assms(3-6)]
  by (auto simp: family_move_def split: option.splits sum.splits state.splits)

theorem packet_addresses_witness:
  "\<exists>b r mx' tr'. process_vrrp_packet list_crates (example_os 3) b (IpV4 1) (IpV4 2) 255
       \<lparr>guarded = example_in Master, poisoned = False\<rparr> [] = Some (r, mx', tr')
     \<and> addr_requests tr' = [AddrDel 7 (IpV4 (ipv4_new 10 0 0 1)) 24]"
proof -
  obtain b where b: "\<And>s d. decode list_crates b (IpV4 s) d = Some (Inr (example_packet 200))"
    using example_decodes by blast
  obtain r mx' tr' where s: "process_vrrp_packet list_crates (example_os 3) b (IpV4 1) (IpV4 2) 255
    \<lparr>guarded = example_in Master, poisoned = False\<rparr> [] = Some (r, mx', tr')"
    using example_process by blast
  have "nets_ok (example_in Master)" by (simp add: nets_ok_def net_ok4_def example_net_def)
  moreover have "fsm_state (vr_fsm (guarded mx')) = Backup"
    using erase_eq(3) [OF process_step [OF _ _ s b]]
    by (simp add: example_packet_def example_accepted [unfolded example_packet_def] fsm_step_state)
  ultimately have "addr_requests tr' = link_requests (example_os 3) Delete ''fover4-51-9724'' [NetV4 example_net]"
    using packet_addresses [OF lt.ip_text_axioms example_undisturbed _ _ _ s] b
    by (simp add: example_packet_def)
  also have "\<dots> = [AddrDel 7 (IpV4 (ipv4_new 10 0 0 1)) 24]"
    by (simp add: link_requests_def example_os_def example_link_def example_net_def)
  finally show ?thesis using s by blast
qed

end
