(* ===== verification/Tasks.thy ===== *)
theory Tasks
  imports Handlers
begin

text \<open>
  The tasks of \<open>src/src/core_tasks.rs\<close>: one turn of each listening loop, given what the
  listener received, and one tick of the timer loop. The packet views \<open>EthernetPacket::new\<close>
  and \<open>Ipv4Packet::new\<close> of \<open>pnet\<close> are a parameter. A turn never ends a listening task; a
  tick ends the timer task when the observer reports an error.
\<close>

record pnet =
  pnet_ipv4 :: "bytes \<Rightarrow> ipv4_packet option"
  pnet_ethernet :: "bytes \<Rightarrow> eth_packet option"

text \<open>
  The standard views, as an instance of the parameter: an Ethernet header of 14 bytes, an IPv4
  header whose length is in its first byte.
\<close>

definition standard_pnet :: pnet where
  "standard_pnet = \<lparr>
     pnet_ipv4 = (\<lambda>b. if length b < 20 then None
       else Some \<lparr>ip_source = of_be32 (take 4 (drop 12 b)), ip_destination = of_be32 (take 4 (drop 16 b)),
                  ip_ttl = b ! 8, ip_payload = drop (unat (b ! 0 AND 0x0F) * 4) b\<rparr>),
     pnet_ethernet = (\<lambda>b. if length b < 14 then None
       else Some \<lparr>eth_source = take 6 (drop 6 b), eth_payload = drop 14 b\<rparr>)\<rparr>"

text \<open>The state a turn works on: the shared router and the trace.\<close>

type_synonym turn = "(router_mutex \<times> trace) option"

definition vrrp_turn ::
  "crates \<Rightarrow> pnet \<Rightarrow> os \<Rightarrow> (io_error + bytes \<times> ip_addr) \<Rightarrow> router_mutex \<Rightarrow> trace \<Rightarrow> turn" where
  "vrrp_turn C P os received mx tr =
     (case received of
        Inl _ \<Rightarrow> Some (mx, tr)
      | Inr (buf, _) \<Rightarrow>
          (case pnet_ipv4 P buf of
             None \<Rightarrow> Some (mx, tr)
           | Some ip_packet \<Rightarrow> do {
               (_, mx, tr) \<leftarrow> handle_incoming_vrrp_v4_pkt C os ip_packet mx tr;
               Some (mx, tr)
             }))"

definition vrrp_v6_turn ::
  "crates \<Rightarrow> os \<Rightarrow> (io_error + bytes \<times> ip_addr) \<Rightarrow> router_mutex \<Rightarrow> trace \<Rightarrow> turn" where
  "vrrp_v6_turn C os received mx tr =
     (case received of
        Inl _ \<Rightarrow> Some (mx, tr)
      | Inr (buf, IpV6 src) \<Rightarrow> do {
          (_, mx, tr) \<leftarrow> handle_incoming_vrrp_v6_pkt C os buf src mx tr;
          Some (mx, tr)
        }
      | Inr (buf, IpV4 _) \<Rightarrow> Some (mx, tr))"

definition arp_turn ::
  "crates \<Rightarrow> pnet \<Rightarrow> os \<Rightarrow> (io_error + bytes) \<Rightarrow> router_mutex \<Rightarrow> trace \<Rightarrow> turn" where
  "arp_turn C P os received mx tr =
     (case received of
        Inl _ \<Rightarrow> Some (mx, tr)
      | Inr buf \<Rightarrow>
          (case pnet_ethernet P buf of
             None \<Rightarrow> Some (mx, tr)
           | Some eth_packet \<Rightarrow> do {
               (_, tr) \<leftarrow> handle_incoming_arp_pkt C os eth_packet mx tr;
               Some (mx, tr)
             }))"

definition ndp_turn ::
  "crates \<Rightarrow> os \<Rightarrow> (io_error + bytes \<times> u128) \<Rightarrow> router_mutex \<Rightarrow> trace \<Rightarrow> turn" where
  "ndp_turn C os received mx tr =
     (case received of
        Inl _ \<Rightarrow> Some (mx, tr)
      | Inr (payload, src) \<Rightarrow> do {
          (_, tr) \<leftarrow> handle_incoming_ndp_pkt C os payload src mx tr;
          Some (mx, tr)
        })"

text \<open>
  One tick of \<open>timer_process\<close>, with the error that ends the task, if any. A poisoned lock and
  a timer without deadline only skip the tick.
\<close>

definition timer_tick ::
  "crates \<Rightarrow> os \<Rightarrow> router_mutex \<Rightarrow> trace \<Rightarrow> (net_error option \<times> router_mutex \<times> trace) option" where
  "timer_tick C os mx tr =
     (if poisoned mx then Some (None, mx, tr)
      else let vrouter = guarded mx; timer = fsm_timer (vr_fsm vrouter) in
        case t_type timer of
          MasterDownTimer \<Rightarrow>
            (case waiting_for timer of
               Some waiting \<Rightarrow>
                 if os_now os tr > waiting then do {
                   (r, vrouter, tr) \<leftarrow> notify_mut C os vrouter MasterDown tr;
                   Some (case r of Inl err \<Rightarrow> Some err | Inr _ \<Rightarrow> None, mx\<lparr>guarded := vrouter\<rparr>, tr)
                 }
                 else Some (None, mx, tr)
             | None \<Rightarrow> Some (None, mx, tr))
        | AdverTimer \<Rightarrow>
            (case waiting_for timer of
               Some waiting \<Rightarrow>
                 if os_now os tr > waiting then do {
                   tr \<leftarrow> send_advertisement C os vrouter tr;
                   fsm \<leftarrow> set_advert_timer (os_now os tr) (f32_of_u8 (vr_advert_interval vrouter))
                            (vr_fsm vrouter);
                   Some (None, mx\<lparr>guarded := vrouter\<lparr>vr_fsm := fsm\<rparr>\<rparr>, tr)
                 }
                 else Some (None, mx, tr)
             | None \<Rightarrow> Some (None, mx, tr))
        | NullTimer \<Rightarrow> Some (None, mx, tr))"

text \<open>
  The instants of the ticks. \<open>tokio::time::interval\<close> completes its first tick at once, at
  \<open>start\<close>, and then one every period; \<open>deadline_tick\<close> is the first tick after a deadline, the
  one at which \<open>Instant::now() > waiting\<close> holds, for a loop whose ticks are not delayed.
\<close>

definition poll_period :: nat where "poll_period = 1000 * 1000000"

definition tick_time :: "instant \<Rightarrow> nat \<Rightarrow> instant" where
  "tick_time start k = start + k * poll_period"

definition deadline_tick :: "instant \<Rightarrow> instant \<Rightarrow> instant" where
  "deadline_tick start waiting =
     (if waiting < start then start else tick_time start ((waiting - start) div poll_period + 1))"

text \<open>Binding: the errors \<open>SocketBind\<close> that end a task before its loop.\<close>

definition vrrp_bind :: "os \<Rightarrow> string \<Rightarrow> string \<Rightarrow> ip_addr \<Rightarrow> trace \<Rightarrow> net_error option \<times> trace" where
  "vrrp_bind os kind parent_ifname unspec_addr tr =
     (case vrrp_listener_bind os parent_ifname unspec_addr tr of
        (Some source, tr) \<Rightarrow> (Some (SocketBind kind parent_ifname source), tr)
      | (None, tr) \<Rightarrow> (None, tr))"

definition arp_bind :: "os \<Rightarrow> string \<Rightarrow> trace \<Rightarrow> net_error option \<times> trace" where
  "arp_bind os ifname tr =
     (case arp_listener_bind os ifname tr of
        (Some source, tr) \<Rightarrow> (Some (SocketBind ''ARP'' ifname source), tr)
      | (None, tr) \<Rightarrow> (None, tr))"

definition ndp_bind :: "os \<Rightarrow> string \<Rightarrow> trace \<Rightarrow> net_error option \<times> trace" where
  "ndp_bind os ifname tr =
     (case ndp_listener_bind os ifname tr of
        (Some source, tr) \<Rightarrow> (Some (SocketBind ''NDP'' ifname source), tr)
      | (None, tr) \<Rightarrow> (None, tr))"

section \<open>A tick executes the protocol\<close>

text \<open>The first tick after a deadline comes at most one period after it.\<close>

lemma poll_period_pos: "0 < poll_period"
  by (simp add: poll_period_def)

lemma deadline_tick_first:
  "deadline_tick start w \<in> range (tick_time start)"
  "w < deadline_tick start w"
  "tick_time start k \<le> w \<or> deadline_tick start w \<le> tick_time start k"
proof -
  show "deadline_tick start w \<in> range (tick_time start)"
  proof (cases "w < start")
    case True
    then show ?thesis
      using rangeI [of "tick_time start" 0] by (simp add: deadline_tick_def tick_time_def)
  qed (simp add: deadline_tick_def)
  show "w < deadline_tick start w"
  proof (cases "w < start")
    case False
    have "w - start < ((w - start) div poll_period + 1) * poll_period"
      using dividend_less_div_times [OF poll_period_pos, of "w - start"] by (simp add: add_mult_distrib)
    with False show ?thesis by (simp add: deadline_tick_def tick_time_def)
  qed (simp add: deadline_tick_def)
  show "tick_time start k \<le> w \<or> deadline_tick start w \<le> tick_time start k"
  proof (cases "tick_time start k \<le> w")
    case False
    then have late: "w - start < k * poll_period \<or> w < start" by (auto simp: tick_time_def)
    show ?thesis
    proof (cases "w < start")
      case True
      then show ?thesis by (simp add: deadline_tick_def tick_time_def)
    next
      case within: False
      with late have "(w - start) div poll_period < k"
        by (simp add: less_mult_imp_div_less)
      then have "((w - start) div poll_period + 1) * poll_period \<le> k * poll_period"
        by (intro mult_le_mono1) simp
      with within show ?thesis by (simp add: deadline_tick_def tick_time_def)
    qed
  qed simp
qed

lemma deadline_tick_bound:
  assumes "start \<le> w"
  shows "deadline_tick start w \<le> w + poll_period"
proof -
  have "start + (w - start) div poll_period * poll_period \<le> w"
    using div_times_less_eq_dividend [of "w - start" poll_period] assms by linarith
  then show ?thesis using assms by (simp add: deadline_tick_def tick_time_def)
qed

lemma deadline_tick_due [simp]: "deadline_tick w w = w + poll_period"
  by (simp add: deadline_tick_def tick_time_def)

lemma timer_tick_idle:
  "\<not> poisoned mx \<Longrightarrow> waiting_for (fsm_timer (vr_fsm (guarded mx))) = Some w \<Longrightarrow>
   os_now os tr \<le> w \<Longrightarrow> timer_tick C os mx tr = Some (None, mx, tr)"
  by (simp add: timer_tick_def Let_def split: timer_type.split)

lemma same_state: "fsm_state m = s \<Longrightarrow> m\<lparr>fsm_timer := x, fsm_state := s\<rparr> = m\<lparr>fsm_timer := x\<rparr>"
  by (cases m) simp

text \<open>What one tick can do: nothing, the Master's advertisement, the takeover of a Backup, or,
  when the mac-vlan is gone, the end of the task.\<close>

lemma timer_tick_cases:
  assumes "router_ok (guarded mx)" and "timer_tick C os mx tr = Some (err, mx', tr')"
  obtains (idle) "err = None" "mx' = mx" "tr' = tr"
      "\<And>w. waiting_for (fsm_timer (vr_fsm (guarded mx))) = Some w \<Longrightarrow> poisoned mx \<or> os_now os tr \<le> w"
    | (advert) w where "\<not> poisoned mx" "waiting_for (fsm_timer (vr_fsm (guarded mx))) = Some w"
      "w < os_now os tr" "fsm_state (vr_fsm (guarded mx)) = Master" "err = None"
      "send_advertisement C os (guarded mx) tr = Some tr'"
      "mx' = mx\<lparr>guarded := fsm_step (os_now os tr') AdvertTimeout (guarded mx)\<rparr>"
    | (takeover) w i where "\<not> poisoned mx" "waiting_for (fsm_timer (vr_fsm (guarded mx))) = Some w"
      "w < os_now os tr" "fsm_state (vr_fsm (guarded mx)) = Backup" "err = None"
      "get_interface os (vr_mac_vlan_interface_v4 (guarded mx)) tr = Inr i"
      "notify_mut C os (guarded mx) MasterDown tr = Some (Inr (), guarded mx', tr')"
      "mx' = mx\<lparr>guarded := fsm_step (os_now os tr') (Raised MasterDown) (guarded mx)\<rparr>"
    | (lost) w e where "\<not> poisoned mx" "waiting_for (fsm_timer (vr_fsm (guarded mx))) = Some w"
      "w < os_now os tr" "fsm_state (vr_fsm (guarded mx)) = Backup" "err = Some e" "mx' = mx" "tr' = tr"
      "get_interface os (vr_mac_vlan_interface_v4 (guarded mx)) tr = Inl e"
proof -
  let ?vr = "guarded mx" and ?timer = "fsm_timer (vr_fsm (guarded mx))"
  note t = router_ok_timers [OF assms(1)]
  note kind = router_ok_expiring [OF assms(1)]
  show ?thesis
  proof (cases "\<exists>w. waiting_for ?timer = Some w \<and> \<not> poisoned mx \<and> w < os_now os tr")
    case False
    then have "timer_tick C os mx tr = Some (None, mx, tr)"
      by (auto simp: timer_tick_def Let_def split: timer_type.splits option.splits)
    with assms(2) False show ?thesis by (intro idle) (auto simp: not_less)
  next
    case True
    then obtain w where w: "waiting_for ?timer = Some w" "\<not> poisoned mx" "w < os_now os tr" by blast
    show ?thesis
    proof (cases "fsm_state (vr_fsm ?vr) = Master")
      case True
      with kind have "t_type ?timer = AdverTimer" by simp
      with assms(2) w True have "err = None" "send_advertisement C os ?vr tr = Some tr'"
        "mx' = mx\<lparr>guarded := fsm_step (os_now os tr') AdvertTimeout ?vr\<rparr>"
        by (auto simp: timer_tick_def Let_def bind_eq_Some_conv set_advert fsm_step_def same_state)
      with w True show ?thesis by (intro advert)
    next
      case False
      with kind w(1) have s: "t_type ?timer = MasterDownTimer" "fsm_state (vr_fsm ?vr) = Backup"
        by (cases "fsm_state (vr_fsm ?vr)"; auto)+
      with assms(2) w obtain r vr1 where n: "notify_mut C os ?vr MasterDown tr = Some (r, vr1, tr')"
        and e: "err = (case r of Inl e \<Rightarrow> Some e | Inr _ \<Rightarrow> None)" and m: "mx' = mx\<lparr>guarded := vr1\<rparr>"
        by (auto simp: timer_tick_def Let_def bind_eq_Some_conv)
      show ?thesis
        using n e m w s notify_mut_outcome [OF t n] by (cases r) (auto intro: lost takeover)
    qed
  qed
qed

lemma timer_tick_step:
  assumes "router_ok (guarded mx)" and "\<not> poisoned mx"
    and "timer_tick C os mx tr = Some (err, mx', tr')"
  shows "\<not> poisoned mx'"
    and "mx' = mx \<or>
      (\<exists>w i. waiting_for (fsm_timer (vr_fsm (guarded mx))) = Some w \<and> w < os_now os tr
         \<and> i = (if fsm_state (vr_fsm (guarded mx)) = Backup then Raised MasterDown else AdvertTimeout)
         \<and> guarded mx' = fsm_step (os_now os tr') i (guarded mx))"
  using assms(2) by (cases rule: timer_tick_cases [OF assms(1,3)]; simp)+

interpretation tick_op: fsm_operation "\<lambda>os. on_router (timer_tick C os)"
    "\<lambda>_. {Raised MasterDown, AdvertTimeout}" for C
proof unfold_locales
  fix vr os tr vr' tr'
  let ?mx = "\<lparr>guarded = vr, poisoned = False\<rparr>"
  assume ok: "router_ok vr" and "on_router (timer_tick C os) vr tr = Some (vr', tr')"
  then obtain err mx' where "timer_tick C os ?mx tr = Some (err, mx', tr')" and "vr' = guarded mx'"
    by (auto simp: on_router_def)
  with timer_tick_step(2) [of ?mx C os tr err mx' tr'] ok
  show "erase vr' = erase vr \<or> (\<exists>i \<in> {Raised MasterDown, AdvertTimeout}.
      erase vr' = erase (fsm_step (os_now os tr') i vr))"
    by auto
qed

text \<open>The tick that takes over: a Backup whose deadline passed and whose mac-vlan has a MAC.\<close>

context wire_crates
begin

lemma tick_takes_over:
  assumes "router_ok (guarded mx)" and "\<not> poisoned mx"
    and "fsm_state (vr_fsm (guarded mx)) = Backup"
    and "waiting_for (fsm_timer (vr_fsm (guarded mx))) = Some w" and "w < os_now os tr"
    and "get_interface os (vr_mac_vlan_interface_v4 (guarded mx)) tr = Inr i" and "if_mac i \<noteq> None"
  obtains mx' tr' where "timer_tick C os mx tr = Some (None, mx', tr')"
    and "guarded mx' = fsm_step (os_now os tr') (Raised MasterDown) (guarded mx)"
    and "fsm_state (vr_fsm (guarded mx')) = Master"
proof -
  note t = router_ok_timers [OF assms(1)]
  have "notify_mut C os (guarded mx) MasterDown tr \<noteq> None"
    using notify_mut_panic_iff [OF t] assms(6,7) by auto
  then obtain r vr1 tr1 where n: "notify_mut C os (guarded mx) MasterDown tr = Some (r, vr1, tr1)"
    by auto
  have "r = Inr ()"
    using n assms(6) by (auto simp: notify_mut_def Let_def bind_eq_Some_conv split: if_splits)
  with n have s: "vr1 = fsm_step (os_now os tr1) (Raised MasterDown) (guarded mx)"
    using notify_mut_step [OF t] by blast
  have "t_type (fsm_timer (vr_fsm (guarded mx))) = MasterDownTimer"
    using router_ok_expiring [OF assms(1)] assms(3) by simp
  with assms n \<open>r = Inr ()\<close> have
    "timer_tick C os mx tr = Some (None, mx\<lparr>guarded := vr1\<rparr>, tr1)"
    by (simp add: timer_tick_def Let_def)
  with s assms(3) show ?thesis by (intro that [of "mx\<lparr>guarded := vr1\<rparr>" tr1]) (simp_all add: fsm_step_state)
qed

lemma timer_tick_panic_iff:
  assumes "router_ok (guarded mx)"
  shows "timer_tick C os mx tr = None \<longleftrightarrow>
    \<not> poisoned mx \<and> fsm_state (vr_fsm (guarded mx)) = Backup
    \<and> (\<exists>w i. waiting_for (fsm_timer (vr_fsm (guarded mx))) = Some w \<and> w < os_now os tr
         \<and> get_interface os (vr_mac_vlan_interface_v4 (guarded mx)) tr = Inr i \<and> if_mac i = None)"
proof -
  let ?vr = "guarded mx"
  obtain tr1 where "send_advertisement C os ?vr tr = Some tr1"
    using send_advertisement_total by blast
  then show ?thesis
    using router_ok_expiring [OF assms] notify_mut_panic_iff [OF router_ok_timers [OF assms], of os MasterDown tr]
    by (cases "fsm_state (vr_fsm ?vr)"; cases "waiting_for (fsm_timer (vr_fsm ?vr))")
      (auto simp: timer_tick_def Let_def set_advert split: timer_type.split)
qed

end

context turn_discipline
begin

lemma ext_timer_tick:
  assumes "timer_tick C os mx tr = Some (err, mx', tr')"
  shows "extends Q tr tr'"
  using assms
  by (auto simp: timer_tick_def Let_def bind_eq_Some_conv ext_refl
      intro: ext_send_advertisement ext_notify_mut
      split: if_splits timer_type.splits option.splits)

end

section \<open>What a listening turn amounts to\<close>

lemma vrrp_turn_cases:
  assumes "vrrp_turn C P os received mx tr = Some (mx', tr')"
  obtains (idle) "mx' = mx" "tr' = tr"
    | (packet) buf sender ip r where "received = Inr (buf, sender)" "pnet_ipv4 P buf = Some ip"
      "\<not> is_local_source os (IpV4 (ip_source ip)) tr"
      "process_vrrp_packet C os (ip_payload ip) (IpV4 (ip_source ip)) (IpV4 (ip_destination ip))
         (ip_ttl ip) mx tr = Some (r, mx', tr')"
  using assms
  by (auto simp: vrrp_turn_def handle_incoming_vrrp_v4_pkt_def bind_eq_Some_conv
      split: sum.splits option.splits if_splits prod.splits)

lemma vrrp_v6_turn_cases:
  assumes "vrrp_v6_turn C os received mx tr = Some (mx', tr')"
  obtains (idle) "mx' = mx" "tr' = tr"
    | (packet) buf src r where "received = Inr (buf, IpV6 src)" "\<not> is_local_source os (IpV6 src) tr"
      "process_vrrp_packet C os buf (IpV6 src) (IpV6 VRRP_V6_MCAST_ADDR) 255 mx tr = Some (r, mx', tr')"
  using assms
  by (auto simp: vrrp_v6_turn_def handle_incoming_vrrp_v6_pkt_def bind_eq_Some_conv
      split: sum.splits ip_addr.splits if_splits prod.splits)

lemma arp_turn_cases:
  assumes "arp_turn C P os received mx tr = Some (mx', tr')"
  obtains (idle) "mx' = mx" "tr' = tr"
    | (frame) buf eth r where "received = Inr buf" "pnet_ethernet P buf = Some eth" "mx' = mx"
      "handle_incoming_arp_pkt C os eth mx tr = Some (r, tr')"
  using assms by (auto simp: arp_turn_def bind_eq_Some_conv split: sum.splits option.splits)

lemma ndp_turn_cases:
  assumes "ndp_turn C os received mx tr = Some (mx', tr')"
  obtains (idle) "mx' = mx" "tr' = tr"
    | (solicitation) payload src r where "received = Inr (payload, src)" "mx' = mx"
      "handle_incoming_ndp_pkt C os payload src mx tr = Some (r, tr')"
  using assms by (auto simp: ndp_turn_def bind_eq_Some_conv split: sum.splits prod.splits)

context turn_discipline
begin

lemma ext_listening_turns:
  "vrrp_turn C P os rv mx tr = Some (mx', tr') \<Longrightarrow> extends Q tr tr'"
  "vrrp_v6_turn C os rv mx tr = Some (mx', tr') \<Longrightarrow> extends Q tr tr'"
  "arp_turn C P os ra mx tr = Some (mx', tr') \<Longrightarrow> extends Q tr tr'"
  "ndp_turn C os rn mx tr = Some (mx', tr') \<Longrightarrow> extends Q tr tr'"
  by (auto elim!: vrrp_turn_cases vrrp_v6_turn_cases arp_turn_cases ndp_turn_cases
      intro: ext_refl ext_process_vrrp_packet ext_arp_handler ext_ndp_handler)

end

context wire_crates
begin

lemma listening_turns_total:
  assumes "timers_ok (guarded mx)"
  shows "vrrp_turn C P os rv mx tr \<noteq> None" "vrrp_v6_turn C os rv mx tr \<noteq> None"
    "arp_turn C P os ra mx tr \<noteq> None" "ndp_turn C os rn mx tr \<noteq> None"
proof -
  have keep: "f \<bind> (\<lambda>(_, y). Some y) \<noteq> None" if "\<exists>r y. f = Some (r, y)"
    for f :: "((net_error + unit) \<times> 'y) option"
    using that by auto
  have "process_vrrp_packet C os payload src dst ttl mx tr \<bind> (\<lambda>(_, y). Some y) \<noteq> None"
    for payload src dst ttl
    using process_total [OF assms, of os payload src dst ttl tr] by (intro keep) blast
  then show "vrrp_turn C P os rv mx tr \<noteq> None" "vrrp_v6_turn C os rv mx tr \<noteq> None"
    by (auto simp: vrrp_turn_def vrrp_v6_turn_def handle_incoming_vrrp_v4_pkt_def
        handle_incoming_vrrp_v6_pkt_def simp del: not_None_eq split: sum.split option.split ip_addr.split)
  have "\<exists>r tr'. handle_incoming_arp_pkt C os eth mx tr = Some (r, tr')" for eth
    by (rule arp_handler_total)
  then show "arp_turn C P os ra mx tr \<noteq> None"
    by (auto simp: arp_turn_def split: sum.split option.split) (metis bind.bind_lunit case_prod_conv)
  have "\<exists>r tr'. handle_incoming_ndp_pkt C os payload src mx tr = Some (r, tr')" for payload src
    by (rule ndp_handler_total)
  then show "ndp_turn C os rn mx tr \<noteq> None"
    by (auto simp: ndp_turn_def split: sum.split) (metis bind.bind_lunit case_prod_conv)
qed

end

text \<open>A poisoned mutex stays as it is: every task skips its turn.\<close>

lemma poisoned_turns:
  assumes "poisoned mx"
  shows "vrrp_turn C P os rv mx tr = Some (mx', tr') \<Longrightarrow> mx' = mx \<and> tr' = tr"
    and "vrrp_v6_turn C os rv mx tr = Some (mx', tr') \<Longrightarrow> mx' = mx \<and> tr' = tr"
    and "arp_turn C P os ra mx tr = Some (mx', tr') \<Longrightarrow> mx' = mx \<and> tr' = tr"
    and "ndp_turn C os rn mx tr = Some (mx', tr') \<Longrightarrow> mx' = mx \<and> tr' = tr"
    and "timer_tick C os mx tr = Some (err, mx', tr') \<Longrightarrow> err = None \<and> mx' = mx \<and> tr' = tr"
proof -
  note silent = process_vrrp_packet_def handle_incoming_arp_pkt_def handle_incoming_ndp_pkt_def
  show "vrrp_turn C P os rv mx tr = Some (mx', tr') \<Longrightarrow> mx' = mx \<and> tr' = tr"
    by (erule vrrp_turn_cases) (use assms in \<open>auto simp: silent\<close>)
  show "vrrp_v6_turn C os rv mx tr = Some (mx', tr') \<Longrightarrow> mx' = mx \<and> tr' = tr"
    by (erule vrrp_v6_turn_cases) (use assms in \<open>auto simp: silent\<close>)
  show "arp_turn C P os ra mx tr = Some (mx', tr') \<Longrightarrow> mx' = mx \<and> tr' = tr"
    by (erule arp_turn_cases) (use assms in \<open>auto simp: silent\<close>)
  show "ndp_turn C os rn mx tr = Some (mx', tr') \<Longrightarrow> mx' = mx \<and> tr' = tr"
    by (erule ndp_turn_cases) (use assms in \<open>auto simp: silent\<close>)
  show "timer_tick C os mx tr = Some (err, mx', tr') \<Longrightarrow> err = None \<and> mx' = mx \<and> tr' = tr"
    using assms by (auto simp: timer_tick_def)
qed

section \<open>Properties of the timer task\<close>

text \<open>C5: One tick of the timer task implements the protocol's timers. Before the deadline,
  in Init and behind a poisoned mutex it does nothing. After the deadline a Master sends its
  advertisement and restarts its timer, and a Backup takes over as Master; only if the
  mac-vlan is gone the Backup stays as it is, and the task ends with that error.\<close>

theorem tick_refines:
  assumes "router_ok (guarded mx)" and "timer_tick C os mx tr = Some (err, mx', tr')"
  shows "case waiting_for (fsm_timer (vr_fsm (guarded mx))) of
      None \<Rightarrow> mx' = mx \<and> tr' = tr \<and> err = None
    | Some w \<Rightarrow>
        if poisoned mx \<or> os_now os tr \<le> w then mx' = mx \<and> tr' = tr \<and> err = None
        else if fsm_state (vr_fsm (guarded mx)) = Master
        then guarded mx' = fsm_step (os_now os tr') AdvertTimeout (guarded mx) \<and> err = None
          \<and> send_advertisement C os (guarded mx) tr = Some tr'
        else (case get_interface os (vr_mac_vlan_interface_v4 (guarded mx)) tr of
            Inr _ \<Rightarrow> guarded mx' = fsm_step (os_now os tr') (Raised MasterDown) (guarded mx) \<and> err = None
          | Inl e \<Rightarrow> mx' = mx \<and> tr' = tr \<and> err = Some e)"
  by (cases rule: timer_tick_cases [OF assms]) (auto split: option.split)

lemma example_waiting: "waiting_for (fsm_timer (vr_fsm (example_in Backup))) = Some (down_of example_router * 3906250)"
  by (simp add: example_in_def running_def)

lemma example_tick:
  "timer_tick list_crates (example_os 0) \<lparr>guarded = example_in Backup, poisoned = False\<rparr> []
   = Some (None, \<lparr>guarded = example_in Backup, poisoned = False\<rparr>, [])"
  using example_waiting by (intro timer_tick_idle [where w = "down_of example_router * 3906250"]) simp_all

lemma example_takeover:
  obtains mx' tr' where "timer_tick list_crates (example_os (4 * 10 ^ 9))
      \<lparr>guarded = example_in Backup, poisoned = False\<rparr> [] = Some (None, mx', tr')"
  by (rule lc.tick_takes_over [where mx = "\<lparr>guarded = example_in Backup, poisoned = False\<rparr>"
        and os = "example_os (4 * 10 ^ 9)" and tr = "[]" and w = "down_of example_router * 3906250"
        and i = "\<lparr>if_name = ''fover4-51-9724'', if_mac = Some example_mac, if_ips = []\<rparr>"])
    (simp_all add: example_waiting down_of_def down_ticks_def)

theorem tick_refines_witness:
  "\<exists>mx' tr'. timer_tick list_crates (example_os (4 * 10 ^ 9)) \<lparr>guarded = example_in Backup, poisoned = False\<rparr> []
      = Some (None, mx', tr')
    \<and> guarded mx' = fsm_step (4 * 10 ^ 9) (Raised MasterDown) (example_in Backup)"
proof -
  obtain mx' tr' where t: "timer_tick list_crates (example_os (4 * 10 ^ 9))
      \<lparr>guarded = example_in Backup, poisoned = False\<rparr> [] = Some (None, mx', tr')"
    by (rule example_takeover)
  from tick_refines [OF _ t] t show ?thesis
    by (simp add: example_waiting down_of_def down_ticks_def)
qed

text \<open>A Backup whose master-down deadline has passed becomes Master at the next
  tick of the timer task, provided its mac-vlan is present and has a MAC address: the tick
  neither fails nor panics, whatever requests the system refuses meanwhile.\<close>

theorem failover_happens:
  assumes "wire_crates C" and "router_ok (guarded mx)" and "\<not> poisoned mx"
    and "fsm_state (vr_fsm (guarded mx)) = Backup"
    and "waiting_for (fsm_timer (vr_fsm (guarded mx))) = Some w" and "w < os_now os tr"
    and "get_interface os (vr_mac_vlan_interface_v4 (guarded mx)) tr = Inr i" and "if_mac i \<noteq> None"
  shows "\<exists>mx' tr'. timer_tick C os mx tr = Some (None, mx', tr')
    \<and> fsm_state (vr_fsm (guarded mx')) = Master \<and> router_ok (guarded mx')"
proof -
  obtain mx' tr' where t: "timer_tick C os mx tr = Some (None, mx', tr')"
    and "guarded mx' = fsm_step (os_now os tr') (Raised MasterDown) (guarded mx)"
    and "fsm_state (vr_fsm (guarded mx')) = Master"
    by (rule wire_crates.tick_takes_over [OF assms])
  with router_ok_step [OF assms(2)] show ?thesis by auto
qed

theorem failover_happens_witness:
  "\<exists>mx' tr'. timer_tick list_crates (example_os (4 * 10 ^ 9)) \<lparr>guarded = example_in Backup, poisoned = False\<rparr> []
      = Some (None, mx', tr')
    \<and> fsm_state (vr_fsm (guarded mx')) = Master \<and> router_ok (guarded mx')"
  by (rule failover_happens [where w = "down_of example_router * 3906250"
        and i = "\<lparr>if_name = ''fover4-51-9724'', if_mac = Some example_mac, if_ips = []\<rparr>",
        OF lc.wire_crates_axioms])
    (simp_all add: example_waiting down_of_def down_ticks_def)

end
