(* ===== verification/Config.thy ===== *)
theory Config
  imports Links
begin

text \<open>
  Configuration: \<open>src/src/config.rs\<close>, the serialisation of versions in \<open>src/src/lib.rs\<close> and
  the conversion \<open>config_to_vr\<close> of \<open>src/src/general.rs\<close>. Loading takes the answers of the file
  system, the environment, the JSON reader, the logging setup and the random generator as a
  \<open>config_env\<close>; what it does to the file system is returned as a list of \<open>fs_action\<close>s. The
  JSON reader turns a text into the members of an object (\<open>raw_config\<close>); the defaults and the
  version check that the program adds to it are modelled here.
\<close>

section \<open>Configurations and errors\<close>

record config =
  cfg_name :: string
  cfg_vrid :: u8
  cfg_ip_addresses :: "string list"
  cfg_interface_name :: string
  cfg_priority :: u8
  cfg_advert_interval :: u8
  cfg_preempt_mode :: bool
  cfg_version :: vrrp_version

definition default_priority :: u8 where "default_priority = 100"
definition default_advert_int :: u8 where "default_advert_int = 1"
definition default_preempt_mode :: bool where "default_preempt_mode = True"

text \<open>
  Errors of \<open>serde_json\<close> and of the logging crate are opaque, but for the message that the
  program itself hands to \<open>serde\<close>.
\<close>

datatype json_error = JsonError string | JsonCustom string

datatype log_config_error = LogConfigErrors string

datatype config_error =
    FileOpen string io_error
  | FileCreate string io_error
  | NoParentDirectory string
  | Parse string json_error
  | LogFileOpen string io_error
  | LoggingSetup log_config_error
  | InvalidVersion u8
  | IPFormatting string
  | DuplicateName string u8
  | DuplicateVrid u8 u8
  | AdvertIntervalTooLarge string u8
  | Ipv6NotSupportedInV2 string string

datatype failover_error = ConfigFailure config_error | NetworkFailure net_error

section \<open>Reading a configuration object\<close>

text \<open>
  The members of a JSON object as the reader finds them, before the program fills in the
  missing ones. A version travels as its number.
\<close>

record raw_config =
  raw_name :: "string option"
  raw_vrid :: u8
  raw_ip_addresses :: "string list"
  raw_interface_name :: string
  raw_priority :: "u8 option"
  raw_advert_interval :: "u8 option"
  raw_preempt_mode :: "bool option"
  raw_version :: "u8 option"

definition serialize_version :: "vrrp_version \<Rightarrow> u8" where
  "serialize_version v = as_u8 v"

definition deserialize_version :: "u8 \<Rightarrow> json_error + vrrp_version" where
  "deserialize_version value =
     (case version_try_from value of
        Inr v \<Rightarrow> Inr v
      | Inl _ \<Rightarrow> Inl (JsonCustom
          (''invalid VRRP version '' @ show_dec (unat value) @ ''; must be 2 or 3'')))"

definition default_version :: vrrp_version where "default_version = V3"

fun unwrap_or :: "'a option \<Rightarrow> 'a \<Rightarrow> 'a" where
  "unwrap_or (Some x) _ = x"
| "unwrap_or None d = d"

definition serialize_config :: "config \<Rightarrow> raw_config" where
  "serialize_config c =
     \<lparr>raw_name = Some (cfg_name c), raw_vrid = cfg_vrid c, raw_ip_addresses = cfg_ip_addresses c,
      raw_interface_name = cfg_interface_name c, raw_priority = Some (cfg_priority c),
      raw_advert_interval = Some (cfg_advert_interval c),
      raw_preempt_mode = Some (cfg_preempt_mode c),
      raw_version = Some (serialize_version (cfg_version c))\<rparr>"

text \<open>The first argument is the name drawn when the object has none.\<close>

definition deserialize_config :: "string \<Rightarrow> raw_config \<Rightarrow> json_error + config" where
  "deserialize_config drawn raw =
     (case (case raw_version raw of
              Some value \<Rightarrow> deserialize_version value
            | None \<Rightarrow> Inr default_version) of
        Inl e \<Rightarrow> Inl e
      | Inr ver \<Rightarrow>
          Inr \<lparr>cfg_name = unwrap_or (raw_name raw) drawn, cfg_vrid = raw_vrid raw,
               cfg_ip_addresses = raw_ip_addresses raw,
               cfg_interface_name = raw_interface_name raw,
               cfg_priority = unwrap_or (raw_priority raw) default_priority,
               cfg_advert_interval = unwrap_or (raw_advert_interval raw) default_advert_int,
               cfg_preempt_mode = unwrap_or (raw_preempt_mode raw) default_preempt_mode,
               cfg_version = ver\<rparr>)"

fun deserialize_configs :: "(nat \<Rightarrow> string) \<Rightarrow> nat \<Rightarrow> raw_config list \<Rightarrow> json_error + config list" where
  "deserialize_configs drawn n [] = Inr []"
| "deserialize_configs drawn n (raw # raws) =
     (case deserialize_config (drawn n) raw of
        Inl e \<Rightarrow> Inl e
      | Inr conf \<Rightarrow>
          (case deserialize_configs drawn (Suc n) raws of
             Inl e \<Rightarrow> Inl e
           | Inr confs \<Rightarrow> Inr (conf # confs)))"

text \<open>The content of a configuration file that the program creates, line by line.\<close>

definition DEFAULT_JSON_CONFIG :: string where
  "DEFAULT_JSON_CONFIG = concat (map (\<lambda>l. l @ [CHR 0x0A])
     [[], ''{'', ''    \"name\": \"VR_1\",'', ''    \"vrid\": 51,'',
      ''    \"interface_name\": \"wlo1\",'', ''    \"ip_addresses\": ['',
      ''        \"192.168.100.100/24\"'', ''    ],'', ''    \"priority\": 101,'',
      ''    \"advert_interval\": 1,'', ''    \"preempt_mode\": true'', ''}''])"

lemma default_json_length: "length DEFAULT_JSON_CONFIG = 201"
  by (simp add: DEFAULT_JSON_CONFIG_def)

lemma deserialize_serialize_version: "deserialize_version (serialize_version v) = Inr v"
  by (simp add: deserialize_version_def serialize_version_def)

lemma deserialize_version_Inr [simp]: "deserialize_version value = Inr v \<longleftrightarrow> value = as_u8 v"
  by (auto simp: deserialize_version_def version_try_from_Inr split: sum.split)

lemma deserialize_serialize_config: "deserialize_config drawn (serialize_config c) = Inr c"
  by (simp add: deserialize_config_def serialize_config_def deserialize_serialize_version)

lemma deserialize_config_Inr:
  "deserialize_config drawn raw = Inr c \<longleftrightarrow>
     raw_version raw \<in> {None, Some 2, Some 3}
     \<and> c = \<lparr>cfg_name = unwrap_or (raw_name raw) drawn, cfg_vrid = raw_vrid raw,
            cfg_ip_addresses = raw_ip_addresses raw, cfg_interface_name = raw_interface_name raw,
            cfg_priority = unwrap_or (raw_priority raw) 100,
            cfg_advert_interval = unwrap_or (raw_advert_interval raw) 1,
            cfg_preempt_mode = unwrap_or (raw_preempt_mode raw) True,
            cfg_version = (if raw_version raw = Some 2 then V2 else V3)\<rparr>"
  by (auto simp: deserialize_config_def default_version_def default_priority_def
      default_advert_int_def default_preempt_mode_def deserialize_version_def version_try_from_def
      split: option.splits if_splits)

lemma deserialize_configs_Inr:
  "deserialize_configs drawn n raws = Inr confs \<longleftrightarrow>
     length confs = length raws
     \<and> (\<forall>i < length raws. deserialize_config (drawn (n + i)) (raws ! i) = Inr (confs ! i))"
proof (induction raws arbitrary: n confs)
  case Nil
  then show ?case by auto
next
  case (Cons raw raws)
  show ?case
  proof (cases confs)
    case Nil
    then show ?thesis by (auto split: sum.split)
  next
    case C: (Cons conf confs')
    have "deserialize_configs drawn n (raw # raws) = Inr confs \<longleftrightarrow>
        deserialize_config (drawn n) raw = Inr conf
        \<and> deserialize_configs drawn (Suc n) raws = Inr confs'"
      using C by (auto split: sum.split)
    also have "\<dots> \<longleftrightarrow> length confs = length (raw # raws)
        \<and> (\<forall>i < length (raw # raws). deserialize_config (drawn (n + i)) ((raw # raws) ! i) = Inr (confs ! i))"
      unfolding Cons.IH C by (auto simp: All_less_Suc2)
    finally show ?thesis .
  qed
qed

section \<open>Validation\<close>

fun check_addresses :: "crates \<Rightarrow> config \<Rightarrow> string list \<Rightarrow> config_error + unit" where
  "check_addresses C cfg [] = Inr ()"
| "check_addresses C cfg (addr # addrs) =
     (case cfg_version cfg of
        V2 \<Rightarrow>
          (case parse_ipnet C addr of
             Some (NetV6 _) \<Rightarrow> Inl (Ipv6NotSupportedInV2 (cfg_name cfg) addr)
           | Some (NetV4 _) \<Rightarrow> check_addresses C cfg addrs
           | None \<Rightarrow> Inl (IPFormatting addr))
      | V3 \<Rightarrow>
          (case parse_ipnet C addr of
             Some _ \<Rightarrow> check_addresses C cfg addrs
           | None \<Rightarrow> Inl (IPFormatting addr)))"

fun check_duplicates :: "config \<Rightarrow> config list \<Rightarrow> config_error + unit" where
  "check_duplicates cfg [] = Inr ()"
| "check_duplicates cfg (other # others) =
     (if cfg_version other \<noteq> cfg_version cfg then check_duplicates cfg others
      else if cfg_name other = cfg_name cfg
      then Inl (DuplicateName (cfg_name cfg) (as_u8 (cfg_version cfg)))
      else if cfg_vrid other = cfg_vrid cfg
      then Inl (DuplicateVrid (cfg_vrid cfg) (as_u8 (cfg_version cfg)))
      else check_duplicates cfg others)"

fun validate_configs :: "crates \<Rightarrow> config list \<Rightarrow> config_error + unit" where
  "validate_configs C [] = Inr ()"
| "validate_configs C (cfg # others) =
     (if cfg_version cfg = V3 \<and> cfg_advert_interval cfg > 40
      then Inl (AdvertIntervalTooLarge (cfg_name cfg) (cfg_advert_interval cfg))
      else case check_addresses C cfg (cfg_ip_addresses cfg) of
        Inl e \<Rightarrow> Inl e
      | Inr _ \<Rightarrow>
          (case check_duplicates cfg others of
             Inl e \<Rightarrow> Inl e
           | Inr _ \<Rightarrow> validate_configs C others))"

section \<open>Loading\<close>

datatype mode =
    FileMode "string option" "string option"
  | CliMode "string option" u8 "string list" string u8 u8 bool u8 "string option"
      \<comment> \<open>name, vrid, addresses, interface, priority, interval, preempt, version, log file\<close>

record config_env =
  env_snap_common :: "string option"
  env_path_exists :: "string \<Rightarrow> bool"
  env_create :: "nat \<Rightarrow> string \<Rightarrow> io_error option"  \<comment> \<open>the n-th attempt\<close>
  env_open :: "nat \<Rightarrow> string \<Rightarrow> io_error + string"  \<comment> \<open>the n-th open, with the contents\<close>
  env_json_array :: "string \<Rightarrow> json_error + raw_config list"  \<comment> \<open>the text as an array of objects\<close>
  env_json_object :: "string \<Rightarrow> json_error + raw_config"  \<comment> \<open>the text as one object\<close>
  env_log_file :: "string \<Rightarrow> io_error option"
  env_log_setup :: "log_config_error option"
  env_alphanumeric :: "nat \<Rightarrow> string"  \<comment> \<open>the ten random characters for the n-th instance\<close>

text \<open>
  \<open>FileAppender::build\<close> opens the log file for appending and creates it, with its directory,
  when it is missing.
\<close>

datatype fs_action =
    CreateFile string | CreateParentDir string | WriteAll string string | OpenLogFile string

definition random_vr_name :: "config_env \<Rightarrow> nat \<Rightarrow> string" where
  "random_vr_name env n = ''VR_'' @ env_alphanumeric env n"

definition configure_logging ::
  "config_env \<Rightarrow> string option \<Rightarrow> (config_error + unit) \<times> fs_action list" where
  "configure_logging env log_file_path =
     (case (case log_file_path of
              Some file_path \<Rightarrow>
                (map_option (LogFileOpen file_path) (env_log_file env file_path), [OpenLogFile file_path])
            | None \<Rightarrow> (None, [])) of
        (Some e, fs) \<Rightarrow> (Inl e, fs)
      | (None, fs) \<Rightarrow>
          (case env_log_setup env of
             Some err \<Rightarrow> (Inl (LoggingSetup err), fs)
           | None \<Rightarrow> (Inr (), fs)))"

definition single_file_config :: "config_env \<Rightarrow> string \<Rightarrow> config_error + config list" where
  "single_file_config env path =
     (case env_open env 1 path of
        Inl source \<Rightarrow> Inl (FileOpen path source)
      | Inr contents \<Rightarrow>
          (case (case env_json_object env contents of
                   Inr raw \<Rightarrow> deserialize_config (random_vr_name env 0) raw
                 | Inl source \<Rightarrow> Inl source) of
             Inr config \<Rightarrow> Inr [config]
           | Inl source \<Rightarrow> Inl (Parse path source)))"

definition read_json_config :: "config_env \<Rightarrow> string \<Rightarrow> config_error + config list" where
  "read_json_config env path =
     (case env_open env 0 path of
        Inl source \<Rightarrow> Inl (FileOpen path source)
      | Inr contents \<Rightarrow>
          (case (case env_json_array env contents of
                   Inr raws \<Rightarrow> deserialize_configs (random_vr_name env) 0 raws
                 | Inl source \<Rightarrow> Inl source) of
             Inr configs \<Rightarrow> Inr configs
           | Inl _ \<Rightarrow> single_file_config env path))"

text \<open>
  \<open>Path::parent\<close> is \<open>None\<close> exactly for the empty path and for an absolute path all of whose
  segments are empty or \<open>.\<close>.
\<close>

fun segments :: "string \<Rightarrow> string \<Rightarrow> string list" where
  "segments acc [] = [rev acc]"
| "segments acc (c # cs) =
     (if c = CHR ''/'' then rev acc # segments [] cs else segments (c # acc) cs)"

definition path_has_parent :: "string \<Rightarrow> bool" where
  "path_has_parent path \<longleftrightarrow>
     path \<noteq> [] \<and> (hd path = CHR ''/'' \<longrightarrow>
       list_ex (\<lambda>s. s \<noteq> [] \<and> s \<noteq> ''.'') (segments [] path))"

text \<open>The config file is created with a default content when it does not exist.\<close>

definition ensure_config_file :: "config_env \<Rightarrow> string \<Rightarrow> (config_error + unit) \<times> fs_action list" where
  "ensure_config_file env fpath =
     (if env_path_exists env fpath then (Inr (), [])
      else case env_create env 0 fpath of
        None \<Rightarrow> (Inr (), [CreateFile fpath, WriteAll fpath DEFAULT_JSON_CONFIG])
      | Some _ \<Rightarrow>
          if \<not> path_has_parent fpath then (Inl (NoParentDirectory fpath), [CreateFile fpath])
          else case env_create env 1 fpath of
            Some source \<Rightarrow>
              (Inl (FileCreate fpath source), [CreateFile fpath, CreateParentDir fpath, CreateFile fpath])
          | None \<Rightarrow>
              (Inr (), [CreateFile fpath, CreateParentDir fpath, CreateFile fpath,
                        WriteAll fpath DEFAULT_JSON_CONFIG]))"

definition config_path :: "config_env \<Rightarrow> string option \<Rightarrow> string" where
  "config_path env filename =
     (case filename of
        None \<Rightarrow> (case env_snap_common env of
                   Some path \<Rightarrow> path @ ''/vrrp-config.json''
                 | None \<Rightarrow> ''/etc/failover/vrrp-config.json'')
      | Some f \<Rightarrow> f)"

fun load_mode :: "crates \<Rightarrow> config_env \<Rightarrow> mode \<Rightarrow> (config_error + config list) \<times> fs_action list" where
  "load_mode C env (FileMode filename log_file_path) =
     (case configure_logging env log_file_path of
        (Inl e, logged) \<Rightarrow> (Inl e, logged)
      | (Inr _, logged) \<Rightarrow>
          let fpath = config_path env filename in
          case ensure_config_file env fpath of
            (Inl e, fs) \<Rightarrow> (Inl e, logged @ fs)
          | (Inr _, fs) \<Rightarrow>
              (case read_json_config env fpath of
                 Inl e \<Rightarrow> (Inl e, logged @ fs)
               | Inr configs \<Rightarrow>
                   (case validate_configs C configs of
                      Inl e \<Rightarrow> (Inl e, logged @ fs)
                    | Inr _ \<Rightarrow> (Inr configs, logged @ fs))))"
| "load_mode C env (CliMode name vid ip_address interface_name prio advert_interval preempt_mode
                      vrrp_version log_file_path) =
     (case configure_logging env log_file_path of
        (Inl e, logged) \<Rightarrow> (Inl e, logged)
      | (Inr _, logged) \<Rightarrow>
          let name = unwrap_or name (random_vr_name env 0) in
          case version_try_from vrrp_version of
            Inl _ \<Rightarrow> (Inl (InvalidVersion vrrp_version), logged)
          | Inr ver \<Rightarrow>
              let configs = [\<lparr>cfg_name = name, cfg_vrid = vid, cfg_ip_addresses = ip_address,
                     cfg_interface_name = interface_name, cfg_priority = prio,
                     cfg_advert_interval = advert_interval, cfg_preempt_mode = preempt_mode,
                     cfg_version = ver\<rparr>] in
              case validate_configs C configs of
                Inl e \<Rightarrow> (Inl e, logged)
              | Inr _ \<Rightarrow> (Inr configs, logged))"

definition parse_cli_opts ::
  "crates \<Rightarrow> config_env \<Rightarrow> mode \<Rightarrow> (failover_error + config list) \<times> fs_action list" where
  "parse_cli_opts C env args =
     (case load_mode C env args of
        (Inl e, fs) \<Rightarrow> (Inl (ConfigFailure e), fs)
      | (Inr configs, fs) \<Rightarrow> (Inr configs, fs))"

section \<open>From a configuration to a router\<close>

fun split_addresses :: "crates \<Rightarrow> string list \<Rightarrow> ipv4_net list \<times> ipv6_net list" where
  "split_addresses C [] = ([], [])"
| "split_addresses C (ip_config # rest) =
     (let (v4s, v6s) = split_addresses C rest in
      case parse_ipnet C ip_config of
        Some (NetV4 net) \<Rightarrow> (net # v4s, v6s)
      | Some (NetV6 net) \<Rightarrow> (v4s, net # v6s)
      | None \<Rightarrow> (v4s, v6s))"

definition config_to_vr :: "crates \<Rightarrow> config \<Rightarrow> virtual_router" where
  "config_to_vr C conf =
     (let raw_addresses = cfg_ip_addresses conf;
          addrs = (if length raw_addresses \<le> MAX_IP_COUNT then raw_addresses
                   else take MAX_IP_COUNT raw_addresses);
          (ipv4_addresses, ipv6_addresses) = split_addresses C addrs
      in router_new
           \<lparr>par_name = cfg_name conf, par_vrid = cfg_vrid conf, par_version = cfg_version conf,
            par_ipv4_addresses = ipv4_addresses, par_ipv6_addresses = ipv6_addresses,
            par_priority = cfg_priority conf, par_advert_interval = cfg_advert_interval conf,
            par_preempt_mode = cfg_preempt_mode conf,
            par_network_interface = cfg_interface_name conf\<rparr>)"

section \<open>What validation promises\<close>

text \<open>
  The contract of a configuration list: every instance is well formed for its version, and
  no two instances of one version share a name or a VRID.
\<close>

definition config_ok :: "crates \<Rightarrow> config \<Rightarrow> bool" where
  "config_ok C cfg \<longleftrightarrow>
     (cfg_version cfg = V3 \<longrightarrow> cfg_advert_interval cfg \<le> 40) \<and>
     (\<forall>addr \<in> set (cfg_ip_addresses cfg).
        case parse_ipnet C addr of
          Some (NetV4 _) \<Rightarrow> True
        | Some (NetV6 _) \<Rightarrow> cfg_version cfg = V3
        | None \<Rightarrow> False)"

definition distinct_instances :: "config \<Rightarrow> config \<Rightarrow> bool" where
  "distinct_instances a b \<longleftrightarrow>
     cfg_version b = cfg_version a \<longrightarrow> cfg_name b \<noteq> cfg_name a \<and> cfg_vrid b \<noteq> cfg_vrid a"

definition configs_ok :: "crates \<Rightarrow> config list \<Rightarrow> bool" where
  "configs_ok C cfgs \<longleftrightarrow> (\<forall>cfg \<in> set cfgs. config_ok C cfg) \<and> sorted_wrt distinct_instances cfgs"

lemma check_addresses_ok:
  "check_addresses C cfg addrs = Inr () \<longleftrightarrow>
   (\<forall>addr \<in> set addrs. case parse_ipnet C addr of
      Some (NetV4 _) \<Rightarrow> True | Some (NetV6 _) \<Rightarrow> cfg_version cfg = V3 | None \<Rightarrow> False)"
  by (induction addrs) (auto split: option.split ip_net.split vrrp_version.split)

lemma check_duplicates_ok:
  "check_duplicates cfg others = Inr () \<longleftrightarrow> (\<forall>other \<in> set others. distinct_instances cfg other)"
  by (induction others) (auto simp: distinct_instances_def)

lemma validate_configs_iff: "validate_configs C cfgs = Inr () \<longleftrightarrow> configs_ok C cfgs"
proof (induction cfgs)
  case Nil
  then show ?case by (simp add: configs_ok_def)
next
  case (Cons cfg others)
  then show ?case
    by (auto simp: configs_ok_def config_ok_def check_addresses_ok [symmetric]
        check_duplicates_ok [symmetric] not_less split: sum.split)
qed

lemma split_addresses_length:
  "length (fst (split_addresses C addrs)) + length (snd (split_addresses C addrs)) \<le> length addrs"
  by (induction addrs) (auto simp: Let_def split: option.split ip_net.split prod.split)

lemma split_addresses_no_v6:
  "\<forall>addr \<in> set addrs. \<forall>net. parse_ipnet C addr \<noteq> Some (NetV6 net) \<Longrightarrow> snd (split_addresses C addrs) = []"
  by (induction addrs) (auto simp: Let_def split: option.split ip_net.split prod.split)

lemma config_to_vr_fields:
  "vr_name (config_to_vr C conf) = cfg_name conf"
  "vr_vrid (config_to_vr C conf) = cfg_vrid conf"
  "vr_version (config_to_vr C conf) = cfg_version conf"
  "vr_priority (config_to_vr C conf) = cfg_priority conf"
  "vr_advert_interval (config_to_vr C conf) = cfg_advert_interval conf"
  "vr_preempt_mode (config_to_vr C conf) = cfg_preempt_mode conf"
  "vr_network_interface (config_to_vr C conf) = cfg_interface_name conf"
  "vr_fsm (config_to_vr C conf) = default_machine"
  "vr_mac_vlan_interface_v6 (config_to_vr C conf) = None \<longleftrightarrow> cfg_version conf = V2"
  by (simp_all add: config_to_vr_def router_new_def Let_def split: prod.split vrrp_version.split)

lemma config_to_vr_addresses:
  "vr_ipv4_addresses (config_to_vr C conf) = fst (split_addresses C (take 16 (cfg_ip_addresses conf)))"
  "vr_ipv6_addresses (config_to_vr C conf) = snd (split_addresses C (take 16 (cfg_ip_addresses conf)))"
  by (simp_all add: config_to_vr_def router_new_def Let_def MAX_IP_COUNT_def split: prod.split)

lemma config_to_vr_count:
  "length (vr_ipv4_addresses (config_to_vr C conf))
   + length (vr_ipv6_addresses (config_to_vr C conf)) \<le> 16"
  using split_addresses_length [of C "take 16 (cfg_ip_addresses conf)"]
  by (simp add: config_to_vr_addresses)

lemma config_to_vr_timers: "timers_ok (config_to_vr C conf)"
  by (simp add: config_to_vr_def Let_def router_new_timers_ok split: prod.split)

section \<open>Properties of the configuration\<close>

text \<open>The networks of one family among a list of address strings, in order.\<close>

definition nets4 :: "crates \<Rightarrow> string list \<Rightarrow> ipv4_net list" where
  "nets4 C strs = concat (map (\<lambda>s. case parse_ipnet C s of Some (NetV4 n) \<Rightarrow> [n] | _ \<Rightarrow> []) strs)"

definition nets6 :: "crates \<Rightarrow> string list \<Rightarrow> ipv6_net list" where
  "nets6 C strs = concat (map (\<lambda>s. case parse_ipnet C s of Some (NetV6 n) \<Rightarrow> [n] | _ \<Rightarrow> []) strs)"

lemma split_addresses_nets: "split_addresses C strs = (nets4 C strs, nets6 C strs)"
  by (induction strs) (auto simp: nets4_def nets6_def Let_def split: option.split ip_net.split)

lemma nets_length:
  "\<forall>s \<in> set strs. parse_ipnet C s \<noteq> None \<Longrightarrow> length (nets4 C strs) + length (nets6 C strs) = length strs"
  by (induction strs) (auto simp: nets4_def nets6_def split: ip_net.split)

lemma adver_int_fits:
  assumes "vr_version vr = V3 \<longrightarrow> vr_advert_interval vr \<le> 40"
  shows "interval_fits (vr_version vr) (adver_int_of vr)"
proof -
  have u: "unat (adver_int_of vr) = unat (vr_advert_interval vr) * 100"
    using unat_lt_256 [of "vr_advert_interval vr"]
    by (simp add: adver_int_of_def unat_word_ariths unsigned_ucast_eq take_bit_eq_mod)
  show ?thesis
  proof (cases "vr_version vr")
    case V2
    have "unat (vr_advert_interval vr) \<le> 255"
      using unat_lt_256 [of "vr_advert_interval vr"] by linarith
    with V2 u show ?thesis by simp
  next
    case V3
    with assms have "unat (vr_advert_interval vr) \<le> 40" by (simp add: word_le_nat_alt)
    with V3 u show ?thesis by simp
  qed
qed

lemma config_ok_parsed:
  "config_ok C conf \<Longrightarrow> \<forall>s \<in> set (take 16 (cfg_ip_addresses conf)). parse_ipnet C s \<noteq> None"
  by (auto simp: config_ok_def dest!: in_set_takeD split: option.splits)

lemma config_ok_router:
  assumes "config_ok C conf"
  shows "cfg_version conf = V2 \<longrightarrow> vr_ipv6_addresses (config_to_vr C conf) = []"
    and "interval_fits (cfg_version conf) (adver_int_of (config_to_vr C conf))"
proof -
  have "snd (split_addresses C (take 16 (cfg_ip_addresses conf))) = []" if "cfg_version conf = V2"
    using assms that
    by (intro split_addresses_no_v6) (fastforce simp: config_ok_def dest!: in_set_takeD)
  then show "cfg_version conf = V2 \<longrightarrow> vr_ipv6_addresses (config_to_vr C conf) = []"
    by (simp add: config_to_vr_addresses)
  show "interval_fits (cfg_version conf) (adver_int_of (config_to_vr C conf))"
    using adver_int_fits [of "config_to_vr C conf"] assms by (simp add: config_to_vr_fields config_ok_def)
qed

lemma parsed_configs_ok:
  assumes "parse_cli_opts C env args = (Inr cfgs, fs)"
  shows "configs_ok C cfgs"
  using assms unfolding validate_configs_iff [symmetric]
  by (cases args) (auto simp: parse_cli_opts_def Let_def simp del: validate_configs.simps split: sum.splits prod.splits)

text \<open>C24: A list of configurations is accepted exactly when every instance is sound
  for its version (every address parses, no IPv6 address in version 2, at most 40 seconds
  between advertisements in version 3, the most its field can carry) and no two instances of
  one version share a name or a VRID. One name or VRID may serve one instance of each version.\<close>

theorem validation_spec:
  "validate_configs C cfgs = Inr () \<longleftrightarrow>
     (\<forall>cfg \<in> set cfgs.
        (cfg_version cfg = V3 \<longrightarrow> cfg_advert_interval cfg \<le> 40)
        \<and> (\<forall>addr \<in> set (cfg_ip_addresses cfg).
             (\<exists>n. parse_ipnet C addr = Some (NetV4 n))
             \<or> cfg_version cfg = V3 \<and> (\<exists>n. parse_ipnet C addr = Some (NetV6 n))))
   \<and> (\<forall>i j. i < j \<and> j < length cfgs \<and> cfg_version (cfgs ! i) = cfg_version (cfgs ! j) \<longrightarrow>
        cfg_name (cfgs ! i) \<noteq> cfg_name (cfgs ! j) \<and> cfg_vrid (cfgs ! i) \<noteq> cfg_vrid (cfgs ! j))"
proof -
  have ok: "(case x of None \<Rightarrow> False | Some (NetV4 _) \<Rightarrow> True | Some (NetV6 _) \<Rightarrow> b) \<longleftrightarrow>
      (\<exists>n. x = Some (NetV4 n)) \<or> b \<and> (\<exists>n. x = Some (NetV6 n))" for x b
    by (cases x) (auto split: ip_net.split)
  show ?thesis
    unfolding validate_configs_iff configs_ok_def config_ok_def ok sorted_wrt_iff_nth_less
      distinct_instances_def
    by (intro arg_cong2 [where f = "(\<and>)"] refl) (metis (no_types))
qed

definition example_config :: "vrrp_version \<Rightarrow> u8 \<Rightarrow> config" where
  "example_config v prio = \<lparr>cfg_name = ''VR_1'', cfg_vrid = 51,
     cfg_ip_addresses = [show_ipv4_net list_crates example_net], cfg_interface_name = ''eth0'',
     cfg_priority = prio, cfg_advert_interval = 1, cfg_preempt_mode = True, cfg_version = v\<rparr>"

lemma example_parses: "parse_ipnet list_crates (show_ipv4_net list_crates example_net) = Some (NetV4 example_net)"
  by (rule lt.parse_show4) (simp add: net_ok4_def example_net_def)

lemma example_config_ok: "config_ok list_crates (example_config v prio)"
  by (simp add: config_ok_def example_config_def example_parses)

theorem validation_spec_witness:
  "validate_configs list_crates [example_config V2 100, example_config V3 50] = Inr ()"
  unfolding validation_spec
  by (auto simp: example_config_def example_parses less_Suc_eq nth_Cons split: nat.splits)

lemma read_json_config_Inr:
  assumes "read_json_config env path = Inr cfgs"
  obtains n contents raws where "env_open env n path = Inr contents"
    and "env_json_array env contents = Inr raws
       \<or> (\<exists>raw. env_json_object env contents = Inr raw \<and> raws = [raw])"
    and "deserialize_configs (random_vr_name env) 0 raws = Inr cfgs"
proof -
  from assms obtain contents where o: "env_open env 0 path = Inr contents"
    by (auto simp: read_json_config_def split: sum.splits)
  show thesis
  proof (cases "case env_json_array env contents of
                   Inr raws \<Rightarrow> deserialize_configs (random_vr_name env) 0 raws
                 | Inl source \<Rightarrow> Inl source")
    case (Inr confs)
    with assms o obtain raws where "env_json_array env contents = Inr raws"
        "deserialize_configs (random_vr_name env) 0 raws = Inr cfgs"
      by (auto simp: read_json_config_def split: sum.splits)
    with o show thesis by (auto intro: that)
  next
    case (Inl e)
    with assms o have "single_file_config env path = Inr cfgs" by (simp add: read_json_config_def)
    then obtain contents' raw where "env_open env 1 path = Inr contents'"
        "env_json_object env contents' = Inr raw"
        "deserialize_configs (random_vr_name env) 0 [raw] = Inr cfgs"
      by (auto simp: single_file_config_def split: sum.splits)
    then show thesis by (auto intro: that)
  qed
qed

text \<open>What a successful load did to the file system.\<close>

definition log_actions :: "string option \<Rightarrow> fs_action list" where
  "log_actions lg = (case lg of Some path \<Rightarrow> [OpenLogFile path] | None \<Rightarrow> [])"

definition create_actions :: "config_env \<Rightarrow> string \<Rightarrow> fs_action list" where
  "create_actions env path =
     (if env_path_exists env path then []
      else (if env_create env 0 path = None then [CreateFile path]
            else [CreateFile path, CreateParentDir path, CreateFile path])
           @ [WriteAll path DEFAULT_JSON_CONFIG])"

lemma configure_logging_Inr:
  "configure_logging env lg = (Inr u, logged) \<Longrightarrow> logged = log_actions lg"
  by (auto simp: configure_logging_def log_actions_def split: option.splits)

lemma ensure_config_file_Inr:
  "ensure_config_file env path = (Inr u, fs) \<Longrightarrow> fs = create_actions env path"
  by (auto simp: ensure_config_file_def create_actions_def split: if_splits option.splits)

lemma load_file:
  assumes "load_mode C env (FileMode filename lg) = (Inr cfgs, fs)"
  shows "read_json_config env (config_path env filename) = Inr cfgs \<and> validate_configs C cfgs = Inr ()
    \<and> fs = log_actions lg @ create_actions env (config_path env filename)"
  using assms
  by (auto simp: Let_def split: sum.splits prod.splits dest!: configure_logging_Inr ensure_config_file_Inr)

lemma load_cli:
  assumes "load_mode C env (CliMode name vid ips ifn prio adv pre ver lg) = (Inr cfgs, fs)"
  shows "fs = log_actions lg \<and> (ver = 2 \<or> ver = 3) \<and> validate_configs C cfgs = Inr ()
         \<and> cfgs = [\<lparr>cfg_name = unwrap_or name (''VR_'' @ env_alphanumeric env 0),
              cfg_vrid = vid, cfg_ip_addresses = ips, cfg_interface_name = ifn, cfg_priority = prio,
              cfg_advert_interval = adv, cfg_preempt_mode = pre,
              cfg_version = (if ver = 2 then V2 else V3)\<rparr>]"
proof -
  obtain u logged where log: "configure_logging env lg = (Inr u, logged)"
    using assms by (cases "configure_logging env lg"; cases "fst (configure_logging env lg)") simp_all
  with assms obtain v where v: "version_try_from ver = Inr v"
    by (cases "version_try_from ver") (simp_all add: Let_def del: validate_configs.simps)
  then have ver: "v = (if ver = 2 then V2 else V3)" "ver = 2 \<or> ver = 3"
    by (auto simp: version_try_from_def split: if_splits)
  let ?cfgs = "[\<lparr>cfg_name = unwrap_or name (random_vr_name env 0),
      cfg_vrid = vid, cfg_ip_addresses = ips, cfg_interface_name = ifn, cfg_priority = prio,
      cfg_advert_interval = adv, cfg_preempt_mode = pre, cfg_version = v\<rparr>]"
  obtain w where val: "validate_configs C ?cfgs = Inr w"
    using assms v log by (cases "validate_configs C ?cfgs") (simp_all add: Let_def)
  have "cfgs = ?cfgs" and "fs = logged"
    using assms unfolding load_mode.simps log v Let_def prod.case sum.case val by simp_all
  moreover from this val have "validate_configs C cfgs = Inr ()" by (simp del: validate_configs.simps)
  ultimately show ?thesis
    using ver configure_logging_Inr [OF log] by (simp add: random_vr_name_def del: validate_configs.simps)
qed

lemma load_file_contents:
  assumes "load_mode C env (FileMode filename lg) = (Inr cfgs, fs)"
  shows "validate_configs C cfgs = Inr ()
    \<and>         fs = (case lg of Some path \<Rightarrow> [OpenLogFile path] | None \<Rightarrow> [])
           @ (let path = config_path env filename in
              if env_path_exists env path then []
              else (if env_create env 0 path = None then [CreateFile path]
                    else [CreateFile path, CreateParentDir path, CreateFile path])
                   @ [WriteAll path DEFAULT_JSON_CONFIG])
         \<and> (\<exists>n contents raws. env_open env n (config_path env filename) = Inr contents
           \<and> (env_json_array env contents = Inr raws
              \<or> (\<exists>raw. env_json_object env contents = Inr raw \<and> raws = [raw]))
           \<and> length cfgs = length raws
           \<and> (\<forall>i < length raws. raw_version (raws ! i) \<in> {None, Some 2, Some 3}
               \<and> cfgs ! i = \<lparr>cfg_name = unwrap_or (raw_name (raws ! i)) (random_vr_name env i),
                    cfg_vrid = raw_vrid (raws ! i), cfg_ip_addresses = raw_ip_addresses (raws ! i),
                    cfg_interface_name = raw_interface_name (raws ! i),
                    cfg_priority = unwrap_or (raw_priority (raws ! i)) 100,
                    cfg_advert_interval = unwrap_or (raw_advert_interval (raws ! i)) 1,
                    cfg_preempt_mode = unwrap_or (raw_preempt_mode (raws ! i)) True,
                    cfg_version = (if raw_version (raws ! i) = Some 2 then V2 else V3)\<rparr>))"
proof -
  have f: "read_json_config env (config_path env filename) = Inr cfgs" "validate_configs C cfgs = Inr ()"
    "fs = log_actions lg @ create_actions env (config_path env filename)"
    using load_file [OF assms] by blast+
  have fs: "fs = (case lg of Some path \<Rightarrow> [OpenLogFile path] | None \<Rightarrow> [])
      @ (let path = config_path env filename in
         if env_path_exists env path then []
         else (if env_create env 0 path = None then [CreateFile path]
               else [CreateFile path, CreateParentDir path, CreateFile path])
              @ [WriteAll path DEFAULT_JSON_CONFIG])"
    unfolding f(3) log_actions_def create_actions_def Let_def by (rule refl)
  obtain n contents raws where r: "env_open env n (config_path env filename) = Inr contents"
    "env_json_array env contents = Inr raws
      \<or> (\<exists>raw. env_json_object env contents = Inr raw \<and> raws = [raw])"
    "deserialize_configs (random_vr_name env) 0 raws = Inr cfgs"
    using f(1) by (rule read_json_config_Inr)
  note d = r(3) [unfolded deserialize_configs_Inr deserialize_config_Inr add_0]
  show ?thesis
    by (rule conjI [OF f(2)], rule conjI [OF fs], intro exI conjI, rule r(1), rule r(2),
        rule d [THEN conjunct1], rule d [THEN conjunct2])
qed

text \<open>C25: Whatever way the instances are loaded, the program only goes on with a list that
  passed validation. From a file, they are the objects of the file in order, read as an array
  or as one object, each with its own members and, for those it omits, priority 100, an
  interval of one second, preemption, version 3 and a drawn name; an object of another version
  than 2 or 3 is never accepted. The command line gives exactly one instance. Of the file
  system, loading from the command line touches only the log file, if one is named; loading from
  a file touches that log file and, if it does not exist yet, the configuration file, which is
  created, after a retry that creates its directory if need be, with the default content.\<close>

theorem loaded_configs:
  assumes "parse_cli_opts C env args = (Inr cfgs, fs)"
  shows "validate_configs C cfgs = Inr ()
    \<and> (\<forall>filename lg. args = FileMode filename lg \<longrightarrow>
         fs = (case lg of Some path \<Rightarrow> [OpenLogFile path] | None \<Rightarrow> [])
           @ (let path = config_path env filename in
              if env_path_exists env path then []
              else (if env_create env 0 path = None then [CreateFile path]
                    else [CreateFile path, CreateParentDir path, CreateFile path])
                   @ [WriteAll path DEFAULT_JSON_CONFIG])
         \<and> (\<exists>n contents raws. env_open env n (config_path env filename) = Inr contents
           \<and> (env_json_array env contents = Inr raws
              \<or> (\<exists>raw. env_json_object env contents = Inr raw \<and> raws = [raw]))
           \<and> length cfgs = length raws
           \<and> (\<forall>i < length raws. raw_version (raws ! i) \<in> {None, Some 2, Some 3}
               \<and> cfgs ! i = \<lparr>cfg_name = unwrap_or (raw_name (raws ! i)) (random_vr_name env i),
                    cfg_vrid = raw_vrid (raws ! i), cfg_ip_addresses = raw_ip_addresses (raws ! i),
                    cfg_interface_name = raw_interface_name (raws ! i),
                    cfg_priority = unwrap_or (raw_priority (raws ! i)) 100,
                    cfg_advert_interval = unwrap_or (raw_advert_interval (raws ! i)) 1,
                    cfg_preempt_mode = unwrap_or (raw_preempt_mode (raws ! i)) True,
                    cfg_version = (if raw_version (raws ! i) = Some 2 then V2 else V3)\<rparr>)))
    \<and> (\<forall>name vid ips ifn prio adv pre ver lg.
         args = CliMode name vid ips ifn prio adv pre ver lg \<longrightarrow>
         fs = (case lg of Some path \<Rightarrow> [OpenLogFile path] | None \<Rightarrow> []) \<and> (ver = 2 \<or> ver = 3)
         \<and> cfgs = [\<lparr>cfg_name = unwrap_or name (''VR_'' @ env_alphanumeric env 0),
              cfg_vrid = vid, cfg_ip_addresses = ips, cfg_interface_name = ifn, cfg_priority = prio,
              cfg_advert_interval = adv, cfg_preempt_mode = pre,
              cfg_version = (if ver = 2 then V2 else V3)\<rparr>])"
proof -
  have load: "load_mode C env args = (Inr cfgs, fs)"
    using assms by (auto simp: parse_cli_opts_def split: sum.splits prod.splits)
  show ?thesis
  proof (cases args)
    case (FileMode filename lg)
    note l = load_file_contents [OF load [unfolded FileMode]]
    show ?thesis
      unfolding FileMode mode.inject
      by (rule conjI [OF l [THEN conjunct1]], rule conjI)
        (intro allI impI, elim conjE, hypsubst, rule l [THEN conjunct2], intro allI impI, elim mode.distinct [THEN notE])
  next
    case (CliMode name vid ips ifn prio adv pre ver lg)
    then have "args \<noteq> FileMode f l" for f l by simp
    with load_cli [OF load [unfolded CliMode], unfolded log_actions_def] CliMode show ?thesis by blast
  qed
qed

definition example_env :: config_env where
  "example_env = \<lparr>env_snap_common = None, env_path_exists = (\<lambda>_. True), env_create = (\<lambda>_ _. None),
     env_open = (\<lambda>_ _. Inr ''[]''), env_json_array = (\<lambda>_. Inr []),
     env_json_object = (\<lambda>_. Inl (JsonError [])), env_log_file = (\<lambda>_. None), env_log_setup = None,
     env_alphanumeric = (\<lambda>_. ''a1b2c3d4e5'')\<rparr>"

definition minimal_object :: raw_config where
  "minimal_object = \<lparr>raw_name = None, raw_vrid = 51, raw_ip_addresses = [],
     raw_interface_name = ''eth0'', raw_priority = None, raw_advert_interval = None,
     raw_preempt_mode = None, raw_version = None\<rparr>"

theorem loaded_configs_witness:
  "\<exists>cfg. parse_cli_opts list_crates (example_env\<lparr>env_json_array := \<lambda>_. Inr [minimal_object]\<rparr>)
       (FileMode None (Some ''log'')) = (Inr [cfg], [OpenLogFile ''log''])
     \<and> cfg_name cfg = ''VR_a1b2c3d4e5'' \<and> cfg_priority cfg = 100 \<and> cfg_version cfg = V3"
proof -
  let ?env = "example_env\<lparr>env_json_array := \<lambda>_. Inr [minimal_object]\<rparr>"
  have "\<exists>cfg. parse_cli_opts list_crates ?env (FileMode None (Some ''log''))
      = (Inr [cfg], [OpenLogFile ''log''])"
    by (simp add: parse_cli_opts_def configure_logging_def example_env_def ensure_config_file_def
        read_json_config_def deserialize_config_def minimal_object_def default_version_def
        default_advert_int_def)
  then obtain cfg where p: "parse_cli_opts list_crates ?env (FileMode None (Some ''log''))
      = (Inr [cfg], [OpenLogFile ''log''])" ..
  have e: "env_open ?env m q = Inr ''[]''" "env_json_array ?env j = Inr [minimal_object]"
    "env_json_object ?env j = Inl (JsonError [])" for m q j
    by (simp_all add: example_env_def)
  obtain n contents raws where r: "env_json_array ?env contents = Inr raws
        \<or> (\<exists>raw. env_json_object ?env contents = Inr raw \<and> raws = [raw])"
    "\<forall>i < length raws. raw_version (raws ! i) \<in> {None, Some 2, Some 3}
       \<and> [cfg] ! i = \<lparr>cfg_name = unwrap_or (raw_name (raws ! i)) (random_vr_name ?env i),
            cfg_vrid = raw_vrid (raws ! i), cfg_ip_addresses = raw_ip_addresses (raws ! i),
            cfg_interface_name = raw_interface_name (raws ! i),
            cfg_priority = unwrap_or (raw_priority (raws ! i)) 100,
            cfg_advert_interval = unwrap_or (raw_advert_interval (raws ! i)) 1,
            cfg_preempt_mode = unwrap_or (raw_preempt_mode (raws ! i)) True,
            cfg_version = (if raw_version (raws ! i) = Some 2 then V2 else V3)\<rparr>"
    using loaded_configs [OF p, THEN conjunct2, THEN conjunct1, rule_format, OF refl] by metis
  have raws: "raws = [minimal_object]" using r(1) unfolding e by auto
  from r(2) have c: "cfg = \<lparr>cfg_name = unwrap_or (raw_name minimal_object) (random_vr_name ?env 0),
            cfg_vrid = raw_vrid minimal_object, cfg_ip_addresses = raw_ip_addresses minimal_object,
            cfg_interface_name = raw_interface_name minimal_object,
            cfg_priority = unwrap_or (raw_priority minimal_object) 100,
            cfg_advert_interval = unwrap_or (raw_advert_interval minimal_object) 1,
            cfg_preempt_mode = unwrap_or (raw_preempt_mode minimal_object) True,
            cfg_version = (if raw_version minimal_object = Some 2 then V2 else V3)\<rparr>"
    unfolding raws by simp
  have f: "cfg_name cfg = ''VR_a1b2c3d4e5'' \<and> cfg_priority cfg = 100 \<and> cfg_version cfg = V3"
    unfolding c config.simps by (simp add: minimal_object_def random_vr_name_def example_env_def)
  show ?thesis by (rule exI, rule conjI [OF p f])
qed

text \<open>The router built from a validated configuration serves the first sixteen configured
  addresses, in order and split by family, and no others: none is lost in parsing, a version 2
  instance has no IPv6 address, and the advertisement interval fits the field of the version,
  so that a receiver decodes what this router sends.\<close>

lemma config_to_router:
  assumes "config_ok C conf"
  shows "vr_ipv4_addresses (config_to_vr C conf) = nets4 C (take 16 (cfg_ip_addresses conf))
    \<and> vr_ipv6_addresses (config_to_vr C conf) = nets6 C (take 16 (cfg_ip_addresses conf))
    \<and> length (vr_ipv4_addresses (config_to_vr C conf)) + length (vr_ipv6_addresses (config_to_vr C conf))
        = min 16 (length (cfg_ip_addresses conf))
    \<and> (cfg_version conf = V2 \<longrightarrow> vr_ipv6_addresses (config_to_vr C conf) = [])
    \<and> interval_fits (cfg_version conf) (adver_int_of (config_to_vr C conf))"
  using nets_length [of "take 16 (cfg_ip_addresses conf)" C] config_ok_parsed [OF assms]
    config_ok_router [OF assms]
  by (auto simp: config_to_vr_addresses split_addresses_nets min.commute)

end
