(* ===== verification/System.thy ===== *)
theory System
  imports Tasks Config
begin

text \<open>
  A running instance: \<open>run\<close> of \<open>src/src/lib.rs\<close>. \<open>run_setup\<close> is the part before the tasks start;
  afterwards the tasks interleave, each holding the mutex for the whole of a turn, until a
  stop signal fires Shutdown and the tasks are aborted. A turn that panics ends its task and
  poisons the mutex. \<open>sys_log\<close> collects the requests of all turns. \<open>main_start\<close> is \<open>main\<close> of
  \<open>src/src/bin/failover.rs\<close> up to its join loop.
\<close>

section \<open>Starting up\<close>

record task_items =
  it_vrouter :: router_mutex
  it_interface :: network_interface
  it_interface_v6 :: "network_interface option"
  it_parent_interface :: network_interface

text \<open>The mac-vlans and primary addresses of an instance, before its first event.\<close>

definition run_prepare ::
  "os \<Rightarrow> virtual_router \<Rightarrow> trace \<Rightarrow> (net_error + task_items) \<times> trace" where
  "run_prepare os vrouter tr =
     (case get_interface os (vr_network_interface vrouter) tr of
        Inl e \<Rightarrow> (Inl e, tr)
      | Inr parent_interface \<Rightarrow>
     (case primary_ipv4 parent_interface of
        Inl e \<Rightarrow> (Inl e, tr)
      | Inr ip \<Rightarrow> let vrouter = vrouter\<lparr>vr_primary_ip := ip\<rparr> in
     (case create_mac_vlan os (if_name parent_interface) (vr_vrid vrouter) FamV4 tr of
        (Inl e, tr) \<Rightarrow> (Inl e, tr)
      | (Inr v4_name, tr) \<Rightarrow> let vrouter = vrouter\<lparr>vr_mac_vlan_interface_v4 := v4_name\<rparr> in
     (case get_interface os v4_name tr of
        Inl e \<Rightarrow> (Inl e, tr)
      | Inr interface \<Rightarrow>
          if vr_version vrouter = V3 then
            (case create_mac_vlan os (if_name parent_interface) (vr_vrid vrouter) FamV6 tr of
               (Inl e, tr) \<Rightarrow> (Inl e, tr)
             | (Inr v6_name, tr) \<Rightarrow>
                 let vrouter = vrouter\<lparr>vr_mac_vlan_interface_v6 := Some v6_name,
                                       vr_primary_ip_v6 := primary_ipv6 parent_interface\<rparr> in
                 (case get_interface os v6_name tr of
                    Inl e \<Rightarrow> (Inl e, tr)
                  | Inr interface_v6 \<Rightarrow>
                      (Inr \<lparr>it_vrouter = \<lparr>guarded = vrouter, poisoned = False\<rparr>,
                            it_interface = interface, it_interface_v6 = Some interface_v6,
                            it_parent_interface = parent_interface\<rparr>, tr)))
          else
            (Inr \<lparr>it_vrouter = \<lparr>guarded = vrouter, poisoned = False\<rparr>,
                  it_interface = interface, it_interface_v6 = None,
                  it_parent_interface = parent_interface\<rparr>, tr)))))"

text \<open>
  \<open>run\<close> up to the spawning of the tasks; an error of the Startup event is a panic.
\<close>

definition run_setup ::
  "crates \<Rightarrow> os \<Rightarrow> virtual_router \<Rightarrow> trace \<Rightarrow> ((failover_error + task_items) \<times> trace) option" where
  "run_setup C os vrouter tr =
     (case run_prepare os vrouter tr of
        (Inl e, tr) \<Rightarrow> Some (Inl (NetworkFailure e), tr)
      | (Inr items, tr) \<Rightarrow> do {
          (r, mx, tr) \<leftarrow> notify C os (it_vrouter items) Startup tr;
          case r of
            Inl _ \<Rightarrow> None
          | Inr _ \<Rightarrow> Some (Inr (items\<lparr>it_vrouter := mx\<rparr>), tr)
        })"

section \<open>Running\<close>

datatype task = VrrpTask | ArpTask | VrrpV6Task | NdpTask | TimerTask

definition spawned_tasks :: "task_items \<Rightarrow> task set" where
  "spawned_tasks items =
     (if it_interface_v6 items \<noteq> None
      then {VrrpTask, ArpTask, VrrpV6Task, NdpTask, TimerTask}
      else {VrrpTask, ArpTask, TimerTask})"

text \<open>
  A running instance: the mutex, the tasks that still run, and the log of all requests made
  since \<open>run\<close> was called.
\<close>

record system =
  sys_mutex :: router_mutex
  sys_tasks :: "task set"
  sys_log :: trace

text \<open>What a task is given in one turn.\<close>

datatype input =
    GotVrrp "io_error + bytes \<times> ip_addr"
  | GotVrrpV6 "io_error + bytes \<times> ip_addr"
  | GotArp "io_error + bytes"
  | GotNdp "io_error + bytes \<times> u128"
  | GotTick

fun task_of :: "input \<Rightarrow> task" where
  "task_of (GotVrrp _) = VrrpTask"
| "task_of (GotVrrpV6 _) = VrrpV6Task"
| "task_of (GotArp _) = ArpTask"
| "task_of (GotNdp _) = NdpTask"
| "task_of GotTick = TimerTask"

text \<open>The turn of a task: whether it goes on, the router and the trace; \<open>None\<close> is a panic.\<close>

fun turn_of ::
  "crates \<Rightarrow> pnet \<Rightarrow> os \<Rightarrow> input \<Rightarrow> router_mutex \<Rightarrow> trace \<Rightarrow> (bool \<times> router_mutex \<times> trace) option" where
  "turn_of C P os (GotVrrp received) mx tr =
     map_option (\<lambda>(mx, tr). (True, mx, tr)) (vrrp_turn C P os received mx tr)"
| "turn_of C P os (GotVrrpV6 received) mx tr =
     map_option (\<lambda>(mx, tr). (True, mx, tr)) (vrrp_v6_turn C os received mx tr)"
| "turn_of C P os (GotArp received) mx tr =
     map_option (\<lambda>(mx, tr). (True, mx, tr)) (arp_turn C P os received mx tr)"
| "turn_of C P os (GotNdp received) mx tr =
     map_option (\<lambda>(mx, tr). (True, mx, tr)) (ndp_turn C os received mx tr)"
| "turn_of C P os GotTick mx tr =
     map_option (\<lambda>(err, mx, tr). (err = None, mx, tr)) (timer_tick C os mx tr)"

text \<open>
  Every turn starts with its own view of the operating system: anything may have happened
  outside since the last one. A panic, which is one of the observer's (\<open>turn_of_panic_iff\<close>), poisons the mutex
  and ends the task.
\<close>

definition run_turn :: "crates \<Rightarrow> pnet \<Rightarrow> os \<Rightarrow> input \<Rightarrow> system \<Rightarrow> system" where
  "run_turn C P os inp s =
     (case turn_of C P os inp (sys_mutex s) [] of
        None \<Rightarrow> s\<lparr>sys_mutex := (sys_mutex s)\<lparr>poisoned := True\<rparr>,
                  sys_tasks := sys_tasks s - {task_of inp},
                  sys_log := sys_log s @ panic_requests C os (guarded (sys_mutex s)) []\<rparr>
      | Some (goes_on, mx, tr) \<Rightarrow>
          s\<lparr>sys_mutex := mx,
            sys_tasks := (if goes_on then sys_tasks s else sys_tasks s - {task_of inp}),
            sys_log := sys_log s @ tr\<rparr>)"

definition run_shutdown :: "crates \<Rightarrow> os \<Rightarrow> system \<Rightarrow> system" where
  "run_shutdown C os s =
     (case notify C os (sys_mutex s) Shutdown [] of
        None \<Rightarrow> s\<lparr>sys_mutex := (sys_mutex s)\<lparr>poisoned := True\<rparr>\<rparr>
      | Some (_, mx, tr) \<Rightarrow> s\<lparr>sys_mutex := mx, sys_log := sys_log s @ tr\<rparr>)"

text \<open>
  Steps of a running instance. A task may also end by itself or be aborted at any time: a
  failed bind ends it before its first turn, \<open>abort_all\<close> after Shutdown.
\<close>

inductive sys_step :: "crates \<Rightarrow> pnet \<Rightarrow> system \<Rightarrow> system \<Rightarrow> bool" for C P where
  turn: "task_of inp \<in> sys_tasks s \<Longrightarrow> sys_step C P s (run_turn C P os inp s)"
| task_ends: "sys_step C P s (s\<lparr>sys_tasks := sys_tasks s - {t}\<rparr>)"
| shutdown: "sys_step C P s (run_shutdown C os s)"

inductive_cases sys_stepE: "sys_step C P s s'"

lemma sys_step_tasks: "sys_step C P s s' \<Longrightarrow> sys_tasks s' \<subseteq> sys_tasks s"
  by (erule sys_stepE) (auto simp: run_turn_def run_shutdown_def split: option.splits prod.splits)

text \<open>The states an instance of a configuration can reach.\<close>

definition started :: "task_items \<Rightarrow> trace \<Rightarrow> system" where
  "started items tr =
     \<lparr>sys_mutex = it_vrouter items, sys_tasks = spawned_tasks items, sys_log = tr\<rparr>"

lemma started_fields [simp]:
  "sys_mutex (started items tr) = it_vrouter items"
  "sys_tasks (started items tr) = spawned_tasks items"
  "sys_log (started items tr) = tr"
  by (simp_all add: started_def)

inductive reachable :: "crates \<Rightarrow> pnet \<Rightarrow> config \<Rightarrow> system \<Rightarrow> bool" for C P conf where
  start: "run_setup C os (config_to_vr C conf) [] = Some (Inr items, tr) \<Longrightarrow>
          reachable C P conf (started items tr)"
| step: "reachable C P conf s \<Longrightarrow> sys_step C P s s' \<Longrightarrow> reachable C P conf s'"

section \<open>The program\<close>

text \<open>
  \<open>main\<close> of \<open>src/src/bin/failover.rs\<close> up to its join loop: it ends the process with an exit
  code, or runs one independent instance per configuration. What loading did to the file
  system is the second component.
\<close>

datatype main_outcome = ExitCode int | Spawned "virtual_router list"

definition main_start :: "crates \<Rightarrow> config_env \<Rightarrow> mode \<Rightarrow> main_outcome \<times> fs_action list" where
  "main_start C env args =
     (case parse_cli_opts C env args of
        (Inl err, fs) \<Rightarrow> (ExitCode 1, fs)
      | (Inr routers_config, fs) \<Rightarrow>
          let routers_tasks = map (config_to_vr C) routers_config in
          if routers_tasks = [] then (ExitCode 0, fs) else (Spawned routers_tasks, fs))"

lemma main_start_instances:
  assumes "main_start C env args = (Spawned vrs, fs)"
  obtains confs where "parse_cli_opts C env args = (Inr confs, fs)" "vrs = map (config_to_vr C) confs"
    "confs \<noteq> []"
  using assms by (auto simp: main_start_def Let_def split: prod.splits sum.splits if_splits)

section \<open>Turns execute the protocol\<close>

text \<open>No turn of a task raises Startup: that happens once, before the tasks.\<close>

fun turn_stimuli :: "input \<Rightarrow> stimulus set" where
  "turn_stimuli (GotVrrp _) = range Advert"
| "turn_stimuli (GotVrrpV6 _) = range Advert"
| "turn_stimuli (GotArp _) = {}"
| "turn_stimuli (GotNdp _) = {}"
| "turn_stimuli GotTick = {Raised MasterDown, AdvertTimeout}"

lemma process_mutex:
  assumes "router_ok (guarded mx)" and "\<not> poisoned mx"
    and "process_vrrp_packet C os payload src dst ttl mx tr = Some (r, mx', tr')"
  shows "erase (guarded mx') = erase (guarded mx)
       \<or> (\<exists>i \<in> range Advert. erase (guarded mx') = erase (fsm_step (os_now os tr') i (guarded mx)))"
  using packet_op.refines [OF assms(1)]
    on_router_mutex [where f = "process_vrrp_packet C os payload src dst ttl", OF assms(2,3)]
  by blast

lemma turn_of_step:
  assumes "router_ok (guarded mx)" and "\<not> poisoned mx" and "turn_of C P os inp mx tr = Some (go, mx', tr')"
  shows "erase (guarded mx') = erase (guarded mx)
       \<or> (\<exists>i \<in> turn_stimuli inp. erase (guarded mx') = erase (fsm_step (os_now os tr') i (guarded mx)))"
proof (cases inp)
  case (GotVrrp rv)
  with assms(3) have "vrrp_turn C P os rv mx tr = Some (mx', tr')" by auto
  with GotVrrp assms(1,2) show ?thesis
    by (auto elim!: vrrp_turn_cases dest: process_mutex)
next
  case (GotVrrpV6 rv)
  with assms(3) have "vrrp_v6_turn C os rv mx tr = Some (mx', tr')" by auto
  with GotVrrpV6 assms(1,2) show ?thesis
    by (auto elim!: vrrp_v6_turn_cases dest: process_mutex)
next
  case (GotArp ra)
  with assms(3) have "arp_turn C P os ra mx tr = Some (mx', tr')" by auto
  then show ?thesis by (auto elim!: arp_turn_cases)
next
  case (GotNdp rn)
  with assms(3) have "ndp_turn C os rn mx tr = Some (mx', tr')" by auto
  then show ?thesis by (auto elim!: ndp_turn_cases)
next
  case GotTick
  with assms(3) obtain err where "timer_tick C os mx tr = Some (err, mx', tr')" by auto
  with timer_tick_step(2) [OF assms(1,2)] GotTick show ?thesis by force
qed

interpretation turn_op: fsm_operation "\<lambda>os. on_router (turn_of C P os inp)" "\<lambda>_. turn_stimuli inp"
    for C P inp
proof unfold_locales
  fix vr os tr vr' tr'
  let ?mx = "\<lparr>guarded = vr, poisoned = False\<rparr>"
  assume ok: "router_ok vr" and "on_router (turn_of C P os inp) vr tr = Some (vr', tr')"
  then obtain go mx' where "turn_of C P os inp ?mx tr = Some (go, mx', tr')" and "vr' = guarded mx'"
    by (auto simp: on_router_def)
  with turn_of_step [of ?mx C P os inp tr go mx' tr'] ok
  show "erase vr' = erase vr \<or> (\<exists>i \<in> turn_stimuli inp. erase vr' = erase (fsm_step (os_now os tr') i vr))"
    by simp
qed

lemma turn_of_poisoned:
  "poisoned mx \<Longrightarrow> turn_of C P os inp mx tr = Some (go, mx', tr') \<Longrightarrow> go \<and> mx' = mx \<and> tr' = tr"
  by (cases inp) (auto dest: poisoned_turns)

lemma turn_of_keeps_poisoned:
  assumes "router_ok (guarded mx)" and "turn_of C P os inp mx tr = Some (go, mx', tr')"
  shows "poisoned mx' = poisoned mx"
proof (cases "poisoned mx")
  case True
  then show ?thesis using turn_of_poisoned assms(2) by blast
next
  case False
  show ?thesis
  proof (cases inp)
    case (GotVrrp rv)
    with assms(2) have "vrrp_turn C P os rv mx tr = Some (mx', tr')" by auto
    then show ?thesis by (rule vrrp_turn_cases) (auto dest: process_poisoned)
  next
    case (GotVrrpV6 rv)
    with assms(2) have "vrrp_v6_turn C os rv mx tr = Some (mx', tr')" by auto
    then show ?thesis by (rule vrrp_v6_turn_cases) (auto dest: process_poisoned)
  next
    case (GotArp ra)
    with assms(2) have "arp_turn C P os ra mx tr = Some (mx', tr')" by auto
    then show ?thesis by (rule arp_turn_cases) auto
  next
    case (GotNdp rn)
    with assms(2) have "ndp_turn C os rn mx tr = Some (mx', tr')" by auto
    then show ?thesis by (rule ndp_turn_cases) auto
  next
    case GotTick
    with assms(2) obtain err where "timer_tick C os mx tr = Some (err, mx', tr')" by auto
    with timer_tick_step(1) [OF assms(1) False] False show ?thesis by blast
  qed
qed

section \<open>Effects and panics of a turn\<close>

context turn_discipline
begin

lemma ext_turn_of: "turn_of C P os inp mx tr = Some (go, mx', tr') \<Longrightarrow> extends Q tr tr'"
  by (cases inp) (auto intro: ext_listening_turns ext_timer_tick)

end

context wire_crates
begin

text \<open>Only the timer task can panic, and only on the way from Backup to Master.\<close>

lemma turn_of_panic_iff:
  assumes "router_ok (guarded mx)"
  shows "turn_of C P os inp mx tr = None \<longleftrightarrow>
    inp = GotTick \<and> \<not> poisoned mx \<and> fsm_state (vr_fsm (guarded mx)) = Backup
    \<and> (\<exists>w i. waiting_for (fsm_timer (vr_fsm (guarded mx))) = Some w \<and> w < os_now os tr
         \<and> get_interface os (vr_mac_vlan_interface_v4 (guarded mx)) tr = Inr i \<and> if_mac i = None)"
  using listening_turns_total [OF router_ok_timers [OF assms]] timer_tick_panic_iff [OF assms]
  by (cases inp) simp_all

end

section \<open>Invariants of a running instance\<close>

text \<open>What an instance keeps from its configuration, and its interfaces.\<close>

definition instance_of :: "crates \<Rightarrow> config \<Rightarrow> virtual_router \<Rightarrow> bool" where
  "instance_of C conf vr \<longleftrightarrow>
     vr_name vr = cfg_name conf \<and> vr_vrid vr = cfg_vrid conf \<and> vr_version vr = cfg_version conf
     \<and> vr_priority vr = cfg_priority conf \<and> vr_advert_interval vr = cfg_advert_interval conf
     \<and> vr_preempt_mode vr = cfg_preempt_mode conf
     \<and> vr_ipv4_addresses vr = vr_ipv4_addresses (config_to_vr C conf)
     \<and> vr_ipv6_addresses vr = vr_ipv6_addresses (config_to_vr C conf)
     \<and> vr_mac_vlan_interface_v4 vr = mac_vlan_name (cfg_interface_name conf) (cfg_vrid conf) FamV4
     \<and> vr_mac_vlan_interface_v6 vr =
         (if cfg_version conf = V3
          then Some (mac_vlan_name (cfg_interface_name conf) (cfg_vrid conf) FamV6) else None)"

lemma instance_of_same_config: "same_config vr vr' \<Longrightarrow> instance_of C conf vr' = instance_of C conf vr"
  by (simp add: instance_of_def same_config_fields)

lemma create_mac_vlan_name:
  "create_mac_vlan os parent_ifname vid family tr = (Inr n, tr') \<Longrightarrow>
   n = mac_vlan_name parent_ifname vid family"
  by (erule create_mac_vlan_cases) simp_all

lemma run_prepare_router:
  assumes "run_prepare os vr tr = (Inr items, tr')"
  shows "\<exists>ip v6 ip6. it_vrouter items =
      \<lparr>guarded = vr\<lparr>vr_primary_ip := ip,
         vr_mac_vlan_interface_v4 := mac_vlan_name (vr_network_interface vr) (vr_vrid vr) FamV4,
         vr_mac_vlan_interface_v6 := v6, vr_primary_ip_v6 := ip6\<rparr>, poisoned = False\<rparr>
    \<and> v6 = (if vr_version vr = V3
        then Some (mac_vlan_name (vr_network_interface vr) (vr_vrid vr) FamV6)
        else vr_mac_vlan_interface_v6 vr)"
proof -
  from assms obtain parent ip v4 tr1 where
    parent: "get_interface os (vr_network_interface vr) tr = Inr parent"
    and ip: "primary_ipv4 parent = Inr ip"
    and v4: "create_mac_vlan os (if_name parent) (vr_vrid vr) FamV4 tr = (Inr v4, tr1)"
    by (auto simp: run_prepare_def Let_def split: sum.splits prod.splits)
  note names = get_interface_name [OF parent] create_mac_vlan_name [OF v4]
  show ?thesis
  proof (cases "vr_version vr = V3")
    case True
    with assms parent ip v4 obtain v6 tr2 where
      v6: "create_mac_vlan os (if_name parent) (vr_vrid vr) FamV6 tr1 = (Inr v6, tr2)"
      and "it_vrouter items = \<lparr>guarded = vr\<lparr>vr_primary_ip := ip, vr_mac_vlan_interface_v4 := v4,
         vr_mac_vlan_interface_v6 := Some v6, vr_primary_ip_v6 := primary_ipv6 parent\<rparr>, poisoned = False\<rparr>"
      by (auto simp: run_prepare_def Let_def split: sum.splits prod.splits)
    with True names create_mac_vlan_name [OF v6] show ?thesis
      by (intro exI [of _ ip] exI [of _ "Some v6"] exI [of _ "primary_ipv6 parent"]) simp
  next
    case False
    with assms parent ip v4 have
      "it_vrouter items = \<lparr>guarded = vr\<lparr>vr_primary_ip := ip, vr_mac_vlan_interface_v4 := v4\<rparr>,
         poisoned = False\<rparr>"
      by (auto simp: run_prepare_def Let_def split: sum.splits)
    with False names show ?thesis
      by (intro exI [of _ ip] exI [of _ "vr_mac_vlan_interface_v6 vr"] exI [of _ "vr_primary_ip_v6 vr"]) simp
  qed
qed

lemma run_prepare_items:
  assumes "run_prepare os (config_to_vr C conf) tr = (Inr items, tr')"
  shows "\<not> poisoned (it_vrouter items)" "vr_fsm (guarded (it_vrouter items)) = default_machine"
    "timers_ok (guarded (it_vrouter items))" "instance_of C conf (guarded (it_vrouter items))"
proof -
  let ?vr = "config_to_vr C conf"
  from assms obtain ip v6 ip6 where vr: "it_vrouter items =
      \<lparr>guarded = ?vr\<lparr>vr_primary_ip := ip,
         vr_mac_vlan_interface_v4 := mac_vlan_name (cfg_interface_name conf) (cfg_vrid conf) FamV4,
         vr_mac_vlan_interface_v6 := v6, vr_primary_ip_v6 := ip6\<rparr>, poisoned = False\<rparr>"
    and "v6 = (if cfg_version conf = V3
      then Some (mac_vlan_name (cfg_interface_name conf) (cfg_vrid conf) FamV6)
      else vr_mac_vlan_interface_v6 ?vr)"
    using run_prepare_router [OF assms, unfolded config_to_vr_fields] by blast
  then have v6: "v6 = (if cfg_version conf = V3
      then Some (mac_vlan_name (cfg_interface_name conf) (cfg_vrid conf) FamV6) else None)"
    using config_to_vr_fields(9) [of C conf] by (cases "cfg_version conf") auto
  from vr show "\<not> poisoned (it_vrouter items)" by simp
  from vr show "vr_fsm (guarded (it_vrouter items)) = default_machine"
    by (simp add: config_to_vr_fields)
  from vr show "timers_ok (guarded (it_vrouter items))"
    using config_to_vr_timers [of C conf] by (simp add: timers_ok_def)
  from vr v6 show "instance_of C conf (guarded (it_vrouter items))"
    by (simp add: instance_of_def config_to_vr_fields)
qed

lemma run_setup_prepared:
  assumes "run_setup C os vr tr = Some (Inr items, tr')"
  obtains items0 tr0 mx where "run_prepare os vr tr = (Inr items0, tr0)"
    and "it_interface_v6 items = it_interface_v6 items0"
    and "notify C os (it_vrouter items0) Startup tr0 = Some (Inr (), mx, tr')"
    and "it_vrouter items = mx"
proof -
  obtain res tr0 where p0: "run_prepare os vr tr = (res, tr0)" by fastforce
  with assms obtain items0 where "res = Inr items0" by (cases res) (auto simp: run_setup_def)
  with p0 have p: "run_prepare os vr tr = (Inr items0, tr0)" by simp
  with assms obtain r mx tr1 where n: "notify C os (it_vrouter items0) Startup tr0 = Some (r, mx, tr1)"
    and "(case r of Inl _ \<Rightarrow> None | Inr _ \<Rightarrow> Some (Inr (items0\<lparr>it_vrouter := mx\<rparr>), tr1))
        = Some (Inr items :: failover_error + task_items, tr')"
    by (auto simp: run_setup_def bind_eq_Some_conv)
  then have "r = Inr ()" "items = items0\<lparr>it_vrouter := mx\<rparr>" "tr1 = tr'" by (cases r; simp)+
  with p n show ?thesis by (intro that) simp_all
qed

lemma run_setup_items:
  assumes "run_setup C os (config_to_vr C conf) tr = Some (Inr items, tr')"
  shows "\<not> poisoned (it_vrouter items)" "router_ok (guarded (it_vrouter items))"
    "instance_of C conf (guarded (it_vrouter items))"
    "fsm_state (vr_fsm (guarded (it_vrouter items))) = (if cfg_priority conf = 255 then Master else Backup)"
proof -
  obtain items0 tr0 mx where p: "run_prepare os (config_to_vr C conf) tr = (Inr items0, tr0)"
    and n: "notify C os (it_vrouter items0) Startup tr0 = Some (Inr (), mx, tr')"
    and items: "it_vrouter items = mx"
    using assms by (rule run_setup_prepared)
  note prep = run_prepare_items [OF p]
  let ?vr = "guarded (it_vrouter items0)"
  have ok: "router_ok ?vr"
    using prep(2,3) default_machine_ok by (simp add: router_ok_def)
  from n prep(1) obtain vr where nm: "notify_mut C os ?vr Startup tr0 = Some (Inr (), vr, tr')"
    and mx: "mx = (it_vrouter items0)\<lparr>guarded := vr\<rparr>"
    by (auto simp: notify_def bind_eq_Some_conv)
  have vr: "vr = fsm_step (os_now os tr') (Raised Startup) ?vr"
    using notify_mut_step [OF prep(3) nm] .
  show "\<not> poisoned (it_vrouter items)" using prep(1) mx items by simp
  show "router_ok (guarded (it_vrouter items))" using router_ok_step [OF ok] vr mx items by simp
  show "instance_of C conf (guarded (it_vrouter items))"
    using instance_of_same_config [OF same_config_fsm_step] prep(4) vr mx items by simp
  have "vr_priority ?vr = cfg_priority conf" using prep(4) by (simp add: instance_of_def)
  then show "fsm_state (vr_fsm (guarded (it_vrouter items)))
      = (if cfg_priority conf = 255 then Master else Backup)"
    using vr mx items prep(2) by (simp add: fsm_step_state default_machine_def)
qed

text \<open>
  One step of the system on the router: nothing, or one protocol step that is not Startup.
  A poisoned mutex never lets the router be touched again.
\<close>

lemma notify_mutex:
  assumes "notify C os mx ev tr = Some (r, mx', tr')" and "timers_ok (guarded mx)"
  shows "poisoned mx' = poisoned mx"
    and "mx' = mx \<or> \<not> poisoned mx \<and> guarded mx' = fsm_step (os_now os tr') (Raised ev) (guarded mx)"
proof -
  have "poisoned mx' = poisoned mx \<and>
    (mx' = mx \<or> \<not> poisoned mx \<and> guarded mx' = fsm_step (os_now os tr') (Raised ev) (guarded mx))"
  proof (cases "poisoned mx")
    case True
    with assms show ?thesis by (simp add: notify_def)
  next
    case False
    with assms(1) obtain vr where n: "notify_mut C os (guarded mx) ev tr = Some (r, vr, tr')"
      and "mx' = mx\<lparr>guarded := vr\<rparr>"
      by (auto simp: notify_def bind_eq_Some_conv)
    with notify_mut_step [OF assms(2)] notify_mut_error [of C os "guarded mx" ev tr] False
    show ?thesis by (cases r) fastforce+
  qed
  then show "poisoned mx' = poisoned mx"
    and "mx' = mx \<or> \<not> poisoned mx \<and> guarded mx' = fsm_step (os_now os tr') (Raised ev) (guarded mx)"
    by blast+
qed

definition router_of :: "system \<Rightarrow> virtual_router" where
  "router_of s = guarded (sys_mutex s)"

lemma run_turn_router:
  assumes "router_ok (router_of s)"
  shows "erase (router_of (run_turn C P os inp s)) = erase (router_of s)
    \<or> \<not> poisoned (sys_mutex s)
      \<and> (\<exists>now. \<exists>i \<in> turn_stimuli inp.
           erase (router_of (run_turn C P os inp s)) = erase (fsm_step now i (router_of s)))"
proof (cases "turn_of C P os inp (sys_mutex s) []")
  case None
  then show ?thesis by (simp add: run_turn_def router_of_def)
next
  case (Some res)
  then obtain go mx tr where t: "turn_of C P os inp (sys_mutex s) [] = Some (go, mx, tr)"
    by (cases res) auto
  then have r: "router_of (run_turn C P os inp s) = guarded mx"
    by (simp add: run_turn_def router_of_def)
  show ?thesis
  proof (cases "poisoned (sys_mutex s)")
    case True
    with t r show ?thesis using turn_of_poisoned by (fastforce simp: router_of_def)
  next
    case False
    with turn_of_step [OF assms [unfolded router_of_def] False t] r show ?thesis
      by (auto simp: router_of_def)
  qed
qed

lemma sys_step_router:
  assumes "sys_step C P s s'" and "router_ok (router_of s)"
  shows "erase (router_of s') = erase (router_of s)
    \<or> \<not> poisoned (sys_mutex s)
      \<and> (\<exists>now i. i \<noteq> Raised Startup \<and> erase (router_of s') = erase (fsm_step now i (router_of s)))"
  using assms(1)
proof (cases rule: sys_step.cases)
  case (turn inp os)
  have "Raised Startup \<notin> turn_stimuli inp" by (cases inp) auto
  with run_turn_router [OF assms(2), of C P os inp] turn show ?thesis by metis
next
  case (task_ends t)
  then show ?thesis by (simp add: router_of_def)
next
  case (shutdown os)
  show ?thesis
  proof (cases "notify C os (sys_mutex s) Shutdown []")
    case None
    with shutdown show ?thesis by (simp add: run_shutdown_def router_of_def)
  next
    case (Some res)
    then obtain r mx tr where "notify C os (sys_mutex s) Shutdown [] = Some (r, mx, tr)"
      by (cases res) auto
    with notify_mutex [OF this] assms(2) shutdown show ?thesis
      by (fastforce simp: run_shutdown_def router_of_def router_ok_def)
  qed
qed

lemma sys_step_poisoned:
  assumes "sys_step C P s s'" and "poisoned (sys_mutex s)"
  shows "poisoned (sys_mutex s') \<and> router_of s' = router_of s"
  using assms(1)
proof (cases rule: sys_step.cases)
  case (turn inp os)
  show ?thesis
  proof (cases "turn_of C P os inp (sys_mutex s) []")
    case None
    with turn show ?thesis by (simp add: run_turn_def router_of_def)
  next
    case (Some res)
    with turn_of_poisoned [OF assms(2)] assms(2) turn show ?thesis
      by (cases res) (fastforce simp: run_turn_def router_of_def)
  qed
next
  case (task_ends t)
  with assms(2) show ?thesis by (simp add: router_of_def)
next
  case (shutdown os)
  with assms(2) show ?thesis by (simp add: run_shutdown_def notify_def router_of_def)
qed

lemma sys_step_keeps:
  assumes "sys_step C P s s'" and "router_ok (router_of s)"
  shows "router_ok (router_of s')" "same_config (router_of s) (router_of s')"
  using sys_step_router [OF assms] assms(2) router_ok_erase router_ok_step erase_eq(1) erase_same_config
  by metis+

lemma reachable_keeps:
  assumes "reachable C P conf s"
  shows "router_ok (router_of s) \<and> instance_of C conf (router_of s)"
  using assms
proof (induction rule: reachable.induct)
  case (start os items tr)
  then show ?case using run_setup_items [OF start] by (simp add: router_of_def)
next
  case (step s s')
  then show ?case using sys_step_keeps instance_of_same_config by blast
qed

section \<open>Properties of a running instance\<close>

lemma run_prepare_v6:
  "run_prepare os vr tr = (Inr items, tr') \<Longrightarrow> it_interface_v6 items \<noteq> None \<longleftrightarrow> vr_version vr = V3"
  by (auto simp: run_prepare_def Let_def split: sum.splits prod.splits if_splits)

lemma example_eth0: "get_interface (example_os now) ''eth0'' tr =
    Inr \<lparr>if_name = ''eth0'', if_mac = Some [2, 0, 0, 0, 0, 1], if_ips = [IpV4 (ipv4_new 10 0 0 2)]\<rparr>"
  by (simp add: get_interface_def example_os_def example_interfaces_def)

lemma example_starts:
  "\<exists>items tr. run_setup list_crates (example_os 0) (config_to_vr list_crates (example_config V2 100)) []
     = Some (Inr items, tr)"
proof -
  let ?vr = "config_to_vr list_crates (example_config V2 100)"
  have f: "vr_network_interface ?vr = ''eth0''" "vr_vrid ?vr = 51" "vr_version ?vr = V2"
    "vr_priority ?vr = 100" "vr_fsm ?vr = default_machine" "timers_ok ?vr"
    by (simp_all add: config_to_vr_fields config_to_vr_timers) (simp_all add: example_config_def)
  have "timers_ok (?vr\<lparr>vr_primary_ip := a, vr_mac_vlan_interface_v4 := n\<rparr>)" for a n
    using f(6) by (simp add: timers_ok_def)
  then show ?thesis
    using f by (simp add: run_setup_def run_prepare_def example_eth0 example_create primary_ipv4_def
        notify_def notify_mut_def default_machine_def set_timers Let_def)
qed

lemma setup_deadline:
  assumes "run_setup list_crates os (config_to_vr list_crates (example_config V2 100)) []
     = Some (Inr items, tr)" and "\<And>tr. os_now os tr = 0"
  shows "\<exists>w. waiting_for (fsm_timer (vr_fsm (guarded (it_vrouter items)))) = Some w \<and> w < 10 ^ 13"
proof -
  obtain items0 tr0 mx where
    p: "run_prepare os (config_to_vr list_crates (example_config V2 100)) [] = (Inr items0, tr0)"
    and n: "notify list_crates os (it_vrouter items0) Startup tr0 = Some (Inr (), mx, tr)"
    and mx: "it_vrouter items = mx"
    using assms(1) by (rule run_setup_prepared)
  note prep = run_prepare_items [OF p]
  let ?vr = "guarded (it_vrouter items0)"
  have "mx \<noteq> it_vrouter items0"
    using run_setup_items(4) [OF assms(1)] prep(2) mx by (auto simp: example_config_def default_machine_def)
  with notify_mutex(2) [OF n prep(3)] have g: "guarded mx = fsm_step 0 (Raised Startup) ?vr"
    by (simp add: assms(2))
  have "vr_priority ?vr = 100" "fsm_state (vr_fsm ?vr) = Init"
    using prep(2,4) by (simp_all add: instance_of_def example_config_def default_machine_def)
  with g mx have "waiting_for (fsm_timer (vr_fsm (guarded (it_vrouter items)))) = Some (down_of ?vr * 3906250)"
    by (simp add: fsm_step_timer running_def)
  moreover have "down_of ?vr * 3906250 < 10 ^ 13"
    using down_ticks_bound [of "vr_version ?vr" "vr_priority ?vr" "vr_advert_interval ?vr"]
    by (simp add: down_of_def)
  ultimately show ?thesis by blast
qed

lemmas example_deadline = setup_deadline [where os = "example_os 0", OF _ example_now]

lemma example_reachable:
  "\<exists>s. reachable list_crates P (example_config V2 100) s \<and> \<not> poisoned (sys_mutex s)
     \<and> fsm_state (vr_fsm (router_of s)) = Backup \<and> TimerTask \<in> sys_tasks s"
proof -
  obtain items tr where "run_setup list_crates (example_os 0)
      (config_to_vr list_crates (example_config V2 100)) [] = Some (Inr items, tr)"
    using example_starts by blast
  from reachable.start [OF this, of P] run_setup_items [OF this] show ?thesis
    by (intro exI [of _ "started items tr"])
      (simp add: spawned_tasks_def router_of_def example_config_def)
qed

text \<open>Shutdown of a live instance whose mac-vlan is present leads to Init.\<close>

context wire_crates
begin

lemma shutdown_stops:
  assumes "router_ok (router_of s)" and "\<not> poisoned (sys_mutex s)"
    and "get_interface os (vr_mac_vlan_interface_v4 (router_of s)) [] = Inr i"
  shows "fsm_state (vr_fsm (router_of (run_shutdown C os s))) = Init"
proof -
  let ?vr = "guarded (sys_mutex s)"
  have t: "timers_ok ?vr" using assms(1) by (simp add: router_of_def router_ok_def)
  from notify_mut_panic_iff [OF t] obtain r vr tr where
    n: "notify_mut C os ?vr Shutdown [] = Some (r, vr, tr)"
    by (cases "notify_mut C os ?vr Shutdown []") auto
  have "r = Inr ()"
  proof (cases r)
    case (Inl err)
    with n assms(3) show ?thesis
      by (auto simp: notify_mut_def router_of_def Let_def bind_eq_Some_conv split: if_splits)
  qed simp
  with n have "vr = fsm_step (os_now os tr) (Raised Shutdown) ?vr"
    using notify_mut_step [OF t] by blast
  then have "fsm_state (vr_fsm vr) = Init"
    by (cases "fsm_state (vr_fsm ?vr)") (simp_all add: fsm_step_state)
  with n assms(2) show ?thesis
    by (simp add: run_shutdown_def notify_def router_of_def)
qed

end

text \<open>C1: In every state an instance of a configuration can reach, through any
  interleaving of its tasks, with any packets and any answers of the system, the running timer
  is the one of the state (none in Init, master-down in Backup, advertisement in Master) and
  has a deadline exactly outside Init; the timer intervals are those of the configuration; and
  name, VRID, priority, addresses and interfaces are the configured ones.\<close>

theorem instance_invariant:
  assumes "reachable C P conf s"
  shows "t_type (fsm_timer (vr_fsm (router_of s))) = timer_for (fsm_state (vr_fsm (router_of s)))
    \<and> (waiting_for (fsm_timer (vr_fsm (router_of s))) = None \<longleftrightarrow> fsm_state (vr_fsm (router_of s)) = Init)
    \<and> vr_skew_time (router_of s)
        = of_nat (skew_ticks (cfg_version conf) (cfg_priority conf) (cfg_advert_interval conf)) / 256
    \<and> vr_master_down_interval (router_of s)
        = of_nat (down_ticks (cfg_version conf) (cfg_priority conf) (cfg_advert_interval conf)) / 256
    \<and> instance_of C conf (router_of s)"
  using reachable_keeps [OF assms]
  by (auto simp: router_ok_def machine_ok_def timers_ok_def timer_value_def instance_of_def)

theorem instance_invariant_witness:
  "\<exists>s. reachable list_crates standard_pnet (example_config V2 100) s
     \<and> vr_mac_vlan_interface_v4 (router_of s) = ''fover4-51-9724''"
proof -
  obtain s where "reachable list_crates standard_pnet (example_config V2 100) s"
    using example_reachable by blast
  with instance_invariant [OF this] show ?thesis
    by (auto simp: instance_of_def example_config_def example_name)
qed

text \<open>C2: Every step of a running instance leaves the router as it is, up to a field
  nothing reads, or takes one step of the protocol, never that of Startup; and once a panic
  has poisoned the mutex, no step changes the router any more and the mutex stays poisoned.\<close>

theorem system_refines:
  assumes "reachable C P conf s" and "sys_step C P s s'"
  shows "(erase (router_of s') = erase (router_of s)
          \<or> (\<exists>now i. i \<noteq> Raised Startup \<and> erase (router_of s') = erase (fsm_step now i (router_of s))))
    \<and> (poisoned (sys_mutex s) \<longrightarrow> poisoned (sys_mutex s') \<and> router_of s' = router_of s)"
  using sys_step_router [OF assms(2)] sys_step_poisoned [OF assms(2)] reachable_keeps [OF assms(1)]
  by blast

theorem system_refines_witness:
  "\<exists>s s'. reachable list_crates standard_pnet (example_config V2 100) s \<and> sys_step list_crates standard_pnet s s'
     \<and> (erase (router_of s') = erase (router_of s)
        \<or> (\<exists>now i. i \<noteq> Raised Startup \<and> erase (router_of s') = erase (fsm_step now i (router_of s))))"
proof -
  obtain s where r: "reachable list_crates standard_pnet (example_config V2 100) s"
    using example_reachable by blast
  have s: "sys_step list_crates standard_pnet s (run_shutdown list_crates (example_os 9) s)"
    by (rule sys_step.shutdown)
  from system_refines [OF r s] r s show ?thesis by blast
qed

text \<open>Once an instance is in Init, which after its start only Shutdown brings about,
  it stays in Init without a timer through every later step: no packet and no tick revives it
  while its tasks are being stopped.\<close>

theorem init_is_final:
  assumes "reachable C P conf s" and "fsm_state (vr_fsm (router_of s)) = Init" and "sys_step C P s s'"
  shows "fsm_state (vr_fsm (router_of s')) = Init \<and> waiting_for (fsm_timer (vr_fsm (router_of s'))) = None"
proof -
  note ok = reachable_keeps [OF assms(1)]
  have "erase (router_of s') = erase (router_of s)"
    using sys_step_router [OF assms(3)] ok fsm_step_Init [OF assms(2)] by metis
  from erase_eq [OF this] assms(2) ok show ?thesis by (simp add: router_ok_expiring)
qed

theorem init_is_final_witness:
  "\<exists>s s'. reachable list_crates standard_pnet (example_config V2 100) s \<and> sys_step list_crates standard_pnet s s'
     \<and> fsm_state (vr_fsm (router_of s')) = Init"
proof -
  obtain s where r: "reachable list_crates standard_pnet (example_config V2 100) s" and "\<not> poisoned (sys_mutex s)"
    using example_reachable by blast
  let ?s = "run_shutdown list_crates (example_os 9) s"
  have step: "sys_step list_crates standard_pnet u (run_shutdown list_crates (example_os 9) u)" for u
    by (rule sys_step.shutdown)
  have r': "reachable list_crates standard_pnet (example_config V2 100) ?s"
    using r step by (rule reachable.step)
  have "vr_mac_vlan_interface_v4 (router_of s) = ''fover4-51-9724''"
    using reachable_keeps [OF r] by (simp add: instance_of_def example_config_def example_name)
  then have "fsm_state (vr_fsm (router_of ?s)) = Init"
    using lc.shutdown_stops \<open>\<not> poisoned _\<close> reachable_keeps [OF r] by simp
  from init_is_final [OF r' this step] r' step show ?thesis by blast
qed

text \<open>C10: A turn of a task panics only in one situation: a tick after the deadline of a
  Backup whose mac-vlan exists but reports no MAC address. No packet, however malformed, and
  no refused request makes a task panic.\<close>

theorem panic_condition:
  assumes "wire_crates C" and "reachable C P conf s"
  shows "turn_of C P os inp (sys_mutex s) [] = None \<longleftrightarrow>
    inp = GotTick \<and> \<not> poisoned (sys_mutex s) \<and> fsm_state (vr_fsm (router_of s)) = Backup
    \<and> (\<exists>w i. waiting_for (fsm_timer (vr_fsm (router_of s))) = Some w \<and> w < os_now os []
         \<and> get_interface os (mac_vlan_name (cfg_interface_name conf) (cfg_vrid conf) FamV4) [] = Inr i
         \<and> if_mac i = None)"
  using wire_crates.turn_of_panic_iff [OF assms(1), of "sys_mutex s"] reachable_keeps [OF assms(2)]
  by (simp add: router_of_def instance_of_def)

theorem panic_condition_witness:
  "\<exists>s. turn_of list_crates standard_pnet (example_os 9) (GotArp (Inr [1, 2, 3])) (sys_mutex s) [] \<noteq> None
     \<and> reachable list_crates standard_pnet (example_config V2 100) s"
proof -
  obtain s where r: "reachable list_crates standard_pnet (example_config V2 100) s"
    using example_reachable by blast
  from panic_condition [OF lc.wire_crates_axioms r] r show ?thesis by blast
qed

text \<open>C19: In every turn of every task, and in every event the observer handles, nothing is
  sent to the VRRP groups through a socket whose multicast TTL or hop limit was not set to 255
  before; a receiver would drop it.\<close>

theorem hop_limit_255:
  "(turn_of C P os inp mx [] = Some (go, mx', tr) \<longrightarrow> hops_set False tr)
   \<and> (notify_mut C os vr ev [] = Some (r, vr', tr') \<longrightarrow> hops_set False tr')"
proof
  show "turn_of C P os inp mx [] = Some (go, mx', tr) \<longrightarrow> hops_set False tr"
    using hops_turn.ext_turn_of [of C P os inp mx "[]" go mx' tr] by simp
  show "notify_mut C os vr ev [] = Some (r, vr', tr') \<longrightarrow> hops_set False tr'"
    using hops_links.ext_notify_mut_any [of C os vr ev "[]" r vr' tr'] by simp
qed

theorem hop_limit_255_witness:
  "\<exists>vr' tr. notify_mut list_crates (example_os 9) (example_in Backup) Shutdown [] = Some (Inr (), vr', tr)
     \<and> hops_set False tr"
proof -
  obtain vr' tr where n: "notify_mut list_crates (example_os 9) (example_in Backup) Shutdown [] = Some (Inr (), vr', tr)"
    by (simp add: notify_mut_def)
  from hop_limit_255 [THEN conjunct2, THEN mp, OF n] n show ?thesis by blast
qed

text \<open>While an instance runs, no turn of its tasks creates or removes an interface
  or writes an interface setting; only start-up and Shutdown do.\<close>

theorem links_untouched:
  assumes "turn_of C P os inp mx [] = Some (go, mx', tr)"
  shows "\<forall>e \<in> set tr. \<forall>n i m p c. e \<noteq> LinkDel i \<and> (\<forall>md up. e \<noteq> LinkAddMacVlan n i md up m) \<and> e \<noteq> FsWrite p c"
proof -
  have "list_all keeps_links tr"
    using kept_turn.ext_turn_of [OF assms] by simp
  then show ?thesis by (fastforce simp: list_all_iff)
qed

theorem links_untouched_witness:
  "\<exists>mx' tr. turn_of list_crates standard_pnet (example_os (4 * 10 ^ 9)) GotTick
      \<lparr>guarded = example_in Backup, poisoned = False\<rparr> [] = Some (True, mx', tr)
    \<and> (\<forall>e \<in> set tr. \<forall>n i m p c. e \<noteq> LinkDel i \<and> (\<forall>md up. e \<noteq> LinkAddMacVlan n i md up m) \<and> e \<noteq> FsWrite p c)"
proof -
  obtain mx' tr' where "timer_tick list_crates (example_os (4 * 10 ^ 9))
      \<lparr>guarded = example_in Backup, poisoned = False\<rparr> [] = Some (None, mx', tr')"
    by (rule example_takeover)
  then have t: "turn_of list_crates standard_pnet (example_os (4 * 10 ^ 9)) GotTick
      \<lparr>guarded = example_in Backup, poisoned = False\<rparr> [] = Some (True, mx', tr')"
    by simp
  from links_untouched [OF t] t show ?thesis by blast
qed

text \<open>When an instance has started, it is Master if its priority is 255 and Backup
  otherwise, its mutex is not poisoned, its interfaces are the computed mac-vlans, and the
  IPv6 tasks run exactly in version 3.\<close>

theorem startup_state:
  assumes "run_setup C os (config_to_vr C conf) tr = Some (Inr items, tr')"
  shows "fsm_state (vr_fsm (guarded (it_vrouter items))) = (if cfg_priority conf = 255 then Master else Backup)
    \<and> \<not> poisoned (it_vrouter items) \<and> instance_of C conf (guarded (it_vrouter items))
    \<and> (NdpTask \<in> spawned_tasks items \<longleftrightarrow> cfg_version conf = V3)
    \<and> (VrrpV6Task \<in> spawned_tasks items \<longleftrightarrow> cfg_version conf = V3)"
proof -
  obtain items0 tr0 where p: "run_prepare os (config_to_vr C conf) tr = (Inr items0, tr0)"
    and i: "it_interface_v6 items = it_interface_v6 items0"
    using assms by (rule run_setup_prepared)
  have "it_interface_v6 items0 \<noteq> None \<longleftrightarrow> cfg_version conf = V3"
    using run_prepare_v6 [OF p] by (simp add: config_to_vr_fields)
  with i run_setup_items [OF assms] show ?thesis by (auto simp: spawned_tasks_def)
qed

theorem startup_state_witness:
  "\<exists>items tr. run_setup list_crates (example_os 0) (config_to_vr list_crates (example_config V2 100)) []
       = Some (Inr items, tr)
     \<and> fsm_state (vr_fsm (guarded (it_vrouter items))) = Backup"
proof -
  obtain items tr where s: "run_setup list_crates (example_os 0)
      (config_to_vr list_crates (example_config V2 100)) [] = Some (Inr items, tr)"
    using example_starts by blast
  from startup_state [OF s] s show ?thesis by (auto simp: example_config_def)
qed

text \<open>C26: The program starts only instances that passed validation: at least one, in the
  order of the configurations, each a router in its initial state that serves the first sixteen
  configured addresses of its configuration, in order and split by family, none lost in
  parsing. A version 2 instance has no IPv6 address, the advertisement interval fits the field
  of the version, and two instances of one version have different names and VRIDs. If loading
  fails the program exits with code 1, and with code 0 if there is no instance.\<close>

theorem spawned_instances:
  "case fst (main_start C env args) of
     ExitCode n \<Rightarrow> n = (if isl (fst (parse_cli_opts C env args)) then 1 else 0)
       \<and> parse_cli_opts C env args \<notin> range (\<lambda>(c, cs, fs). (Inr (c # cs), fs))
   | Spawned vrs \<Rightarrow>
       vrs \<noteq> [] \<and> sorted_wrt (\<lambda>a b. vr_version a = vr_version b \<longrightarrow>
                       vr_name a \<noteq> vr_name b \<and> vr_vrid a \<noteq> vr_vrid b) vrs
       \<and> (\<exists>confs. fst (parse_cli_opts C env args) = Inr confs
            \<and> list_all2 (\<lambda>conf vr. vr_name vr = cfg_name conf \<and> vr_vrid vr = cfg_vrid conf
                \<and> vr_version vr = cfg_version conf \<and> vr_priority vr = cfg_priority conf
                \<and> vr_fsm vr = default_machine \<and> timers_ok vr
                \<and> vr_ipv4_addresses vr = nets4 C (take 16 (cfg_ip_addresses conf))
                \<and> vr_ipv6_addresses vr = nets6 C (take 16 (cfg_ip_addresses conf))
                \<and> length (vr_ipv4_addresses vr) + length (vr_ipv6_addresses vr)
                    = min 16 (length (cfg_ip_addresses conf))
                \<and> (vr_version vr = V2 \<longrightarrow> vr_ipv6_addresses vr = [])
                \<and> interval_fits (vr_version vr) (adver_int_of vr)) confs vrs)"
proof (cases "fst (main_start C env args)")
  case (ExitCode n)
  then show ?thesis
    by (cases "parse_cli_opts C env args")
      (auto simp: main_start_def Let_def isl_def split: sum.splits if_splits)
next
  case (Spawned vrs)
  then obtain fs where "main_start C env args = (Spawned vrs, fs)" by (cases "main_start C env args") auto
  then obtain confs where p: "parse_cli_opts C env args = (Inr confs, fs)"
    and v: "vrs = map (config_to_vr C) confs" "confs \<noteq> []"
    by (rule main_start_instances)
  from parsed_configs_ok [OF p] have ok: "configs_ok C confs" .
  then have confs_ok: "config_ok C conf" if "conf \<in> set confs" for conf
    using that by (simp add: configs_ok_def)
  have "list_all2 (\<lambda>conf vr. vr_name vr = cfg_name conf
      \<and> vr_vrid vr = cfg_vrid conf \<and> vr_version vr = cfg_version conf \<and> vr_priority vr = cfg_priority conf
      \<and> vr_fsm vr = default_machine \<and> timers_ok vr
      \<and> vr_ipv4_addresses vr = nets4 C (take 16 (cfg_ip_addresses conf))
      \<and> vr_ipv6_addresses vr = nets6 C (take 16 (cfg_ip_addresses conf))
      \<and> length (vr_ipv4_addresses vr) + length (vr_ipv6_addresses vr)
          = min 16 (length (cfg_ip_addresses conf))
      \<and> (vr_version vr = V2 \<longrightarrow> vr_ipv6_addresses vr = [])
      \<and> interval_fits (vr_version vr) (adver_int_of vr)) confs vrs"
    unfolding v(1) list.rel_map
    by (intro list.rel_refl_strong, drule confs_ok, drule config_to_router, elim conjE)
      (simp add: config_to_vr_fields config_to_vr_timers)
  moreover have "sorted_wrt (\<lambda>a b. vr_version a = vr_version b \<longrightarrow>
      vr_name a \<noteq> vr_name b \<and> vr_vrid a \<noteq> vr_vrid b) vrs"
    using ok v(1)
    by (auto simp: configs_ok_def sorted_wrt_map config_to_vr_fields distinct_instances_def
        elim!: sorted_wrt_mono_rel [rotated])
  ultimately show ?thesis using Spawned v p by simp
qed

definition pair_env :: config_env where
  "pair_env = example_env\<lparr>env_json_array :=
     \<lambda>_. Inr (map serialize_config [example_config V2 100, example_config V3 50])\<rparr>"

theorem spawned_instances_witness:
  "\<exists>vrs. main_start list_crates pair_env (FileMode None None) = (Spawned vrs, [])
    \<and> map vr_version vrs = [V2, V3]
    \<and> list_all (\<lambda>vr. vr_ipv4_addresses vr = [example_net] \<and> vr_ipv6_addresses vr = []) vrs"
proof -
  let ?confs = "[example_config V2 100, example_config V3 50]"
  have "validate_configs list_crates ?confs = Inr ()"
    unfolding validate_configs_iff configs_ok_def
    by (simp add: example_config_ok) (simp add: distinct_instances_def example_config_def)
  then have p: "parse_cli_opts list_crates pair_env (FileMode None None) = (Inr ?confs, [])"
    by (simp add: parse_cli_opts_def configure_logging_def pair_env_def example_env_def
        deserialize_serialize_config ensure_config_file_def read_json_config_def config_path_def
        Let_def del: validate_configs.simps)
  then have m: "main_start list_crates pair_env (FileMode None None) = (Spawned (map (config_to_vr list_crates) ?confs), [])"
    by (simp add: main_start_def)
  have v: "map vr_version (map (config_to_vr list_crates) ?confs) = [V2, V3]"
    by (simp add: config_to_vr_fields) (simp add: example_config_def)
  have a: "list_all (\<lambda>vr. vr_ipv4_addresses vr = [example_net] \<and> vr_ipv6_addresses vr = [])
      (map (config_to_vr list_crates) ?confs)"
    using spawned_instances [of list_crates pair_env "FileMode None None"]
    unfolding m p prod.sel main_outcome.case
    by (simp add: nets4_def nets6_def) (simp add: example_config_def example_parses)
  show ?thesis by (rule exI, rule conjI [OF m], rule conjI [OF v a])
qed

text \<open>Started for the first time, without a configuration file, the program writes
  the default file and starts what that file says: one instance, of version 3 because the file
  names no version, with VRID 51, priority 101, one second between advertisements and the one
  address of the file on the interface \<open>wlo1\<close>.\<close>

theorem first_start:
  assumes "env_log_setup env = None" and "\<not> env_path_exists env path"
    and "env_create env 0 path = None" and "env_open env 0 path = Inr DEFAULT_JSON_CONFIG"
    and "env_open env 1 path = Inr DEFAULT_JSON_CONFIG"
    and "env_json_array env DEFAULT_JSON_CONFIG = Inl err"
    and "env_json_object env DEFAULT_JSON_CONFIG = Inr
       \<lparr>raw_name = Some ''VR_1'', raw_vrid = 51, raw_ip_addresses = [''192.168.100.100/24''],
        raw_interface_name = ''wlo1'', raw_priority = Some 101, raw_advert_interval = Some 1,
        raw_preempt_mode = Some True, raw_version = None\<rparr>"
    and "parse_ipnet C ''192.168.100.100/24'' = Some (NetV4 net)"
  shows "\<exists>vr. main_start C env (FileMode (Some path) None)
      = (Spawned [vr], [CreateFile path, WriteAll path DEFAULT_JSON_CONFIG])
    \<and> vr_name vr = ''VR_1'' \<and> vr_vrid vr = 51 \<and> vr_version vr = V3 \<and> vr_priority vr = 101
    \<and> vr_ipv4_addresses vr = [net] \<and> vr_ipv6_addresses vr = [] \<and> vr_advert_interval vr = 1
    \<and> vr_preempt_mode vr \<and> vr_network_interface vr = ''wlo1'' \<and> vr_fsm vr = default_machine"
proof -
  let ?conf = "\<lparr>cfg_name = ''VR_1'', cfg_vrid = 51, cfg_ip_addresses = [''192.168.100.100/24''],
      cfg_interface_name = ''wlo1'', cfg_priority = 101, cfg_advert_interval = 1,
      cfg_preempt_mode = True, cfg_version = V3\<rparr>"
  have "read_json_config env path = Inr [?conf]"
    using assms by (simp add: read_json_config_def single_file_config_def deserialize_config_def
        default_version_def)
  moreover have "validate_configs C [?conf] = Inr ()"
    using assms(8) by simp
  ultimately have "main_start C env (FileMode (Some path) None)
      = (Spawned [config_to_vr C ?conf], [CreateFile path, WriteAll path DEFAULT_JSON_CONFIG])"
    using assms by (simp add: main_start_def parse_cli_opts_def configure_logging_def config_path_def
        ensure_config_file_def Let_def del: validate_configs.simps)
  moreover have "vr_ipv4_addresses (config_to_vr C ?conf) = [net]" "vr_ipv6_addresses (config_to_vr C ?conf) = []"
    using assms(8) by (simp_all add: config_to_vr_addresses)
  ultimately show ?thesis by (intro exI [of _ "config_to_vr C ?conf"]) (simp add: config_to_vr_fields)
qed

definition first_env :: config_env where
  "first_env = example_env\<lparr>env_path_exists := \<lambda>_. False, env_open := \<lambda>_ _. Inr DEFAULT_JSON_CONFIG,
     env_json_array := \<lambda>_. Inl (JsonError []),
     env_json_object := \<lambda>_. Inr \<lparr>raw_name = Some ''VR_1'', raw_vrid = 51,
        raw_ip_addresses = [''192.168.100.100/24''], raw_interface_name = ''wlo1'',
        raw_priority = Some 101, raw_advert_interval = Some 1, raw_preempt_mode = Some True,
        raw_version = None\<rparr>\<rparr>"

theorem first_start_witness:
  "\<exists>vr C. main_start C first_env (FileMode (Some ''vrrp-config.json'') None)
      = (Spawned [vr], [CreateFile ''vrrp-config.json'', WriteAll ''vrrp-config.json'' DEFAULT_JSON_CONFIG])
    \<and> vr_ipv4_addresses vr = [example_net] \<and> vr_version vr = V3"
proof -
  let ?C = "list_crates\<lparr>parse_ipnet := \<lambda>_. Some (NetV4 example_net)\<rparr>"
  obtain vr where "main_start ?C first_env (FileMode (Some ''vrrp-config.json'') None)
      = (Spawned [vr], [CreateFile ''vrrp-config.json'', WriteAll ''vrrp-config.json'' DEFAULT_JSON_CONFIG])"
      "vr_ipv4_addresses vr = [example_net]" "vr_version vr = V3"
    using first_start [of first_env "''vrrp-config.json''" "JsonError []" ?C example_net]
    by (auto simp: first_env_def example_env_def)
  then show ?thesis by blast
qed

text \<open>What an instance without its timer task can still become Master through.\<close>

lemma erase_state: "erase vr = erase vr' \<Longrightarrow> fsm_state (vr_fsm vr) = fsm_state (vr_fsm vr')"
  by (rule erase_eq(3))

lemma takeover_without_timer:
  assumes "sys_step C P s s'" and "router_ok (router_of s)" and "TimerTask \<notin> sys_tasks s"
    and "fsm_state (vr_fsm (router_of s)) \<noteq> Master" and "fsm_state (vr_fsm (router_of s')) = Master"
  shows "\<exists>os received. VrrpTask \<in> sys_tasks s \<and> s' = run_turn C P os (GotVrrp received) s
      \<or> VrrpV6Task \<in> sys_tasks s \<and> s' = run_turn C P os (GotVrrpV6 received) s"
  using assms(1)
proof (cases rule: sys_step.cases)
  case (turn inp os)
  show ?thesis
  proof (cases inp)
    case (GotVrrp rv)
    with turn show ?thesis by auto
  next
    case (GotVrrpV6 rv)
    with turn show ?thesis by auto
  next
    case (GotArp ra)
    with run_turn_router [OF assms(2), of C P os inp] have "erase (router_of s') = erase (router_of s)"
      using turn by simp
    from erase_state [OF this] assms(4,5) show ?thesis by simp
  next
    case (GotNdp rn)
    with run_turn_router [OF assms(2), of C P os inp] have "erase (router_of s') = erase (router_of s)"
      using turn by simp
    from erase_state [OF this] assms(4,5) show ?thesis by simp
  next
    case GotTick
    with turn assms(3) show ?thesis by simp
  qed
next
  case (task_ends t)
  with assms(4,5) show ?thesis by (simp add: router_of_def)
next
  case (shutdown os)
  have "router_of s' = router_of s \<or> (\<exists>now. router_of s' = fsm_step now (Raised Shutdown) (router_of s))"
  proof (cases "notify C os (sys_mutex s) Shutdown []")
    case None
    with shutdown show ?thesis by (simp add: run_shutdown_def router_of_def)
  next
    case (Some res)
    then obtain r mx tr where n: "notify C os (sys_mutex s) Shutdown [] = Some (r, mx, tr)"
      by (cases res) auto
    from notify_mutex(2) [OF n router_ok_timers [OF assms(2) [unfolded router_of_def]]] n shutdown
    show ?thesis by (auto simp: run_shutdown_def router_of_def)
  qed
  moreover have "fsm_state (vr_fsm (fsm_step now (Raised Shutdown) (router_of s))) \<noteq> Master" for now
    using assms(4) unfolding fsm_step_state by (cases "fsm_state (vr_fsm (router_of s))") simp_all
  ultimately show ?thesis using assms(4,5) by metis
qed

text \<open>C37: If the mac-vlan is missing at the first tick after the deadline of a Backup, that
  tick ends the timer task with the error of the lookup and leaves the instance as it was,
  Backup. No later step brings the timer task back; and whenever a later step makes the instance
  Master, that step is a turn of one of the two tasks that receive advertisements: without its
  timer it can only take over through a received packet.\<close>

theorem timer_task_dies:
  assumes "reachable C P conf s" and "\<not> poisoned (sys_mutex s)"
    and "fsm_state (vr_fsm (router_of s)) = Backup"
    and "waiting_for (fsm_timer (vr_fsm (router_of s))) = Some w" and "w < os_now os []"
    and "get_interface os (vr_mac_vlan_interface_v4 (router_of s)) [] = Inl e"
    and "TimerTask \<in> sys_tasks s"
    and "(sys_step C P)\<^sup>*\<^sup>* (run_turn C P os GotTick s) s'"
  shows "timer_tick C os (sys_mutex s) [] = Some (Some e, sys_mutex s, [])
    \<and> run_turn C P os GotTick s = s\<lparr>sys_tasks := sys_tasks s - {TimerTask}\<rparr>
    \<and> TimerTask \<notin> sys_tasks s'
    \<and> (\<forall>s''. sys_step C P s' s'' \<and> fsm_state (vr_fsm (router_of s')) \<noteq> Master
           \<and> fsm_state (vr_fsm (router_of s'')) = Master \<longrightarrow>
         (\<exists>os' received. VrrpTask \<in> sys_tasks s' \<and> s'' = run_turn C P os' (GotVrrp received) s'
            \<or> VrrpV6Task \<in> sys_tasks s' \<and> s'' = run_turn C P os' (GotVrrpV6 received) s'))"
proof -
  have ok: "t_type (fsm_timer (vr_fsm (router_of s))) = MasterDownTimer"
    using reachable_keeps [OF assms(1)] assms(3) by (simp add: router_of_def router_ok_expiring)
  have tick: "timer_tick C os (sys_mutex s) [] = Some (Some e, sys_mutex s, [])"
    using assms(2-6) ok notify_mut_no_interface [of os "router_of s" "[]" e C MasterDown]
    by (simp add: timer_tick_def router_of_def Let_def)
  then have r: "run_turn C P os GotTick s = s\<lparr>sys_tasks := sys_tasks s - {TimerTask}\<rparr>"
    by (simp add: run_turn_def)
  have "sys_tasks s' \<subseteq> sys_tasks (run_turn C P os GotTick s)"
    using assms(8) by (induction rule: rtranclp_induct) (auto dest: sys_step_tasks)
  with r have gone: "TimerTask \<notin> sys_tasks s'" by auto
  have "reachable C P conf (run_turn C P os GotTick s)"
    by (rule reachable.step [OF assms(1) sys_step.turn]) (simp add: assms(7))
  with assms(8) have "reachable C P conf s'"
    by (induction rule: rtranclp_induct) (auto intro: reachable.step)
  then have "router_ok (router_of s')" using reachable_keeps by blast
  with takeover_without_timer gone tick r show ?thesis by blast
qed

theorem timer_task_dies_witness:
  "\<exists>s. reachable list_crates standard_pnet (example_config V2 100) s \<and> TimerTask \<in> sys_tasks s
     \<and> TimerTask \<notin> sys_tasks (run_turn list_crates standard_pnet (example_os (10 ^ 13)\<lparr>os_interfaces := \<lambda>_. []\<rparr>) GotTick s)"
proof -
  obtain items tr where su: "run_setup list_crates (example_os 0)
      (config_to_vr list_crates (example_config V2 100)) [] = Some (Inr items, tr)"
    using example_starts by blast
  let ?s = "started items tr"
  let ?os = "example_os (10 ^ 13)\<lparr>os_interfaces := \<lambda>_. []\<rparr>"
  have r: "reachable list_crates standard_pnet (example_config V2 100) ?s" by (rule reachable.start [OF su])
  have timer: "TimerTask \<in> sys_tasks ?s" by (simp add: spawned_tasks_def)
  obtain w where w: "waiting_for (fsm_timer (vr_fsm (guarded (it_vrouter items)))) = Some w" "w < 10 ^ 13"
    using example_deadline [OF su] by blast
  have f: "\<not> poisoned (sys_mutex ?s)" "fsm_state (vr_fsm (router_of ?s)) = Backup"
    "waiting_for (fsm_timer (vr_fsm (router_of ?s))) = Some w" "w < os_now ?os []"
    "get_interface ?os (vr_mac_vlan_interface_v4 (router_of ?s)) [] =
       Inl (InterfaceNotFound (vr_mac_vlan_interface_v4 (router_of ?s)))"
    using w run_setup_items [OF su]
    by (simp_all add: router_of_def get_interface_def) (simp_all add: example_config_def)
  have "TimerTask \<notin> sys_tasks (run_turn list_crates standard_pnet ?os GotTick ?s)"
    using timer_task_dies [OF r f timer rtranclp.rtrancl_refl] by blast
  with r timer show ?thesis by blast
qed

end
