(* ===== verification/Addresses.thy ===== *)
theory Addresses
  imports System
begin

text \<open>
  Which virtual addresses a host holds. The netlink requests in the log of an instance are
  replayed on a set of assigned addresses; the result is compared with the state of the
  instance, for a host that refuses no request and whose links stay as they are once the
  instance has set up its interfaces.
\<close>

section \<open>Replaying a log\<close>

text \<open>An assigned address: index of the link, address and prefix length.\<close>

type_synonym assignment = "u32 \<times> ip_addr \<times> u8"

fun replay :: "effect \<Rightarrow> assignment set \<Rightarrow> assignment set" where
  "replay (AddrAdd i a p) S = insert (i, a, p) S"
| "replay (AddrDel i a p) S = S - {(i, a, p)}"
| "replay (LinkDel i) S = {x \<in> S. fst x \<noteq> i}"
| "replay _ S = S"

definition assigned :: "trace \<Rightarrow> assignment set" where
  "assigned tr = fold replay tr {}"

lemma assigned_append: "assigned (xs @ ys) = fold replay ys (assigned xs)"
  by (simp add: assigned_def)

lemma replay_ignores: "\<not> addr_request e \<Longrightarrow> keeps_links e \<Longrightarrow> replay e S = S"
  by (cases e) simp_all

text \<open>A trace that deletes no link acts through its address requests alone.\<close>

lemma replay_addr_requests:
  "list_all keeps_links tr \<Longrightarrow> fold replay tr S = fold replay (addr_requests tr) S"
  by (induction tr arbitrary: S) (simp_all add: replay_ignores)

text \<open>Nothing is assigned that was not assigned before or added.\<close>

lemma replay_subset:
  "(\<And>i a p. AddrAdd i a p \<notin> set tr) \<Longrightarrow> fold replay tr S \<subseteq> S"
proof (induction tr arbitrary: S)
  case (Cons e tr)
  then have "fold replay tr (replay e S) \<subseteq> replay e S" by simp
  moreover have "replay e S \<subseteq> S" using Cons.prems by (cases e) auto
  ultimately show ?case by simp
qed simp

definition net_key :: "u32 \<Rightarrow> ip_net \<Rightarrow> assignment" where
  "net_key i net = (i, net_addr net, net_prefix_len net)"

lemma replay_adds: "fold replay (map (address_request Add i) nets) S = S \<union> net_key i ` set nets"
  by (induction nets arbitrary: S) (auto simp: net_key_def)

lemma replay_deletes: "fold replay (map (address_request Delete i) nets) S = S - net_key i ` set nets"
  by (induction nets arbitrary: S) (auto simp: net_key_def)

text \<open>The virtual addresses of an instance as assignments.\<close>

definition link_keys :: "os \<Rightarrow> string \<Rightarrow> ip_net list \<Rightarrow> assignment set" where
  "link_keys os name nets =
     (case os_link os [] name of
        Inr (Some link) \<Rightarrow> net_key (link_index link) ` set nets
      | _ \<Rightarrow> {})"

definition virtual_keys :: "os \<Rightarrow> virtual_router \<Rightarrow> assignment set" where
  "virtual_keys os vr =
     link_keys os (vr_mac_vlan_interface_v4 vr) (map NetV4 (vr_ipv4_addresses vr))
     \<union> (case vr_mac_vlan_interface_v6 vr of
          Some v6 \<Rightarrow> link_keys os v6 (map NetV6 (vr_ipv6_addresses vr))
        | None \<Rightarrow> {})"

lemma replay_link_requests:
  "fold replay (link_requests os Add name nets) S = S \<union> link_keys os name nets"
  "fold replay (link_requests os Delete name nets) S = S - link_keys os name nets"
  by (simp_all add: link_requests_def link_keys_def replay_adds replay_deletes split: sum.split option.split)

lemma replay_virtual_requests:
  "fold replay (virtual_requests os Add vr) S = S \<union> virtual_keys os vr"
  "fold replay (virtual_requests os Delete vr) S = S - virtual_keys os vr"
  by (auto simp: virtual_requests_def virtual_keys_def replay_link_requests split: option.split)

text \<open>What an instance should hold: its virtual addresses as Master, nothing otherwise.\<close>

definition due :: "os \<Rightarrow> virtual_router \<Rightarrow> assignment set" where
  "due os vr = (if fsm_state (vr_fsm vr) = Master then virtual_keys os vr else {})"

lemma virtual_keys_same_config: "same_config vr vr' \<Longrightarrow> virtual_keys os vr' = virtual_keys os vr"
  by (simp add: virtual_keys_def same_config_fields cong: option.case_cong)

section \<open>What a step does to the addresses\<close>

text \<open>A request of the set-up of interfaces, which assigns nothing.\<close>

definition neutral :: "effect \<Rightarrow> bool" where
  "neutral e \<longleftrightarrow> \<not> addr_request e \<and> (\<forall>i. e \<noteq> LinkDel i)"

lemma replay_neutral: "list_all neutral tr \<Longrightarrow> fold replay tr S = S"
proof (induction tr arbitrary: S)
  case (Cons e tr)
  then have "replay e S = S" by (cases e) (auto simp: neutral_def)
  with Cons show ?case by simp
qed simp

lemma create_mac_vlan_neutral:
  "create_mac_vlan os parent_ifname vid family tr = (r, tr') \<Longrightarrow> extends (list_all neutral) tr tr'"
  by (auto simp: create_mac_vlan_def perform_def extends_def neutral_def Let_def
      split: option.splits sum.splits if_splits)

lemma run_prepare_neutral:
  "run_prepare os vr tr = (r, tr') \<Longrightarrow> extends (list_all neutral) tr tr'"
  by (auto simp: run_prepare_def Let_def split: sum.splits prod.splits if_splits
      dest!: create_mac_vlan_neutral intro: each.ext_refl each.ext_trans)

lemma added_requested: "AddrAdd i a p \<in> set tr \<Longrightarrow> AddrAdd i a p \<in> set (addr_requests tr)"
  and removed_requested: "AddrDel i a p \<in> set (addr_requests tr) \<Longrightarrow> AddrDel i a p \<in> set tr"
  by (simp_all add: addr_requests_def)

lemma replay_removed:
  assumes "\<And>i a p. AddrAdd i a p \<notin> set tr" and "AddrDel i a p \<in> set tr"
  shows "(i, a, p) \<notin> fold replay tr S"
  using assms
proof (induction tr arbitrary: S)
  case (Cons e tr)
  show ?case
  proof (cases "e = AddrDel i a p")
    case True
    then show ?thesis using replay_subset [of tr "S - {(i, a, p)}"] Cons.prems(1) by auto
  next
    case False
    with Cons show ?thesis by auto
  qed
qed simp

lemma virtual_requests_members:
  "AddrAdd i a p \<notin> set (virtual_requests os Delete vr)"
  "(i, a, p) \<in> virtual_keys os vr \<Longrightarrow> AddrDel i a p \<in> set (virtual_requests os Delete vr)"
  by (auto simp: virtual_requests_def virtual_keys_def link_requests_def link_keys_def net_key_def
      split: option.splits sum.splits)

lemma shutdown_adds_nothing: "AddrAdd i a p \<notin> set (event_requests os vr Shutdown)"
  by (cases "fsm_state (vr_fsm vr)") (simp_all add: event_requests_def virtual_requests_members(1))

context ip_text
begin

lemma process_keeps_due:
  assumes "settled base os tr" and "nets_ok (guarded mx)" and "timers_ok (guarded mx)"
    and "vr_mac_vlan_interface_v6 (guarded mx) = None"
    and "process_vrrp_packet C os payload src dst ttl mx tr = Some (r, mx', tr')"
  shows "\<exists>reqs. addr_requests tr' = addr_requests tr @ reqs
    \<and> fold replay reqs (due base (guarded mx)) = due base (guarded mx')"
proof (cases "poisoned mx")
  case True
  with assms(5) show ?thesis by (simp add: process_vrrp_packet_def)
next
  case False
  note reqs = process_requests [OF assms(1-3) False assms(5)]
  from False assms(5) show ?thesis
  proof (cases rule: process_cases)
    case (acted p iface tr1)
    note e = act_on_packet_step [OF assms(3) acted(5)]
    have a: "family_interface (guarded mx) (addresses p) = Some (vr_mac_vlan_interface_v4 (guarded mx))"
      "family_nets (guarded mx) (addresses p) = map NetV4 (vr_ipv4_addresses (guarded mx))"
      using acted(3) assms(4) by (cases "addresses p"; simp)+
    have "virtual_keys base (guarded mx) =
        link_keys base (vr_mac_vlan_interface_v4 (guarded mx)) (map NetV4 (vr_ipv4_addresses (guarded mx)))"
      by (simp add: virtual_keys_def assms(4))
    then have "fold replay (family_move base (guarded mx) (guarded mx') (addresses p)) (due base (guarded mx))
        = due base (guarded mx')"
      using virtual_keys_same_config [OF erase_same_config [OF e]] erase_eq(3) [OF e]
      by (cases "fsm_state (vr_fsm (guarded mx))"; cases "fsm_state (vr_fsm (guarded mx'))")
        (auto simp: family_move_def a due_def replay_link_requests fsm_step_state split: if_splits)
    with reqs acted(1) show ?thesis by simp
  qed (use reqs in \<open>auto intro!: exI [of _ "[]"] split: option.splits sum.splits\<close>)
qed

lemma tick_keeps_due:
  assumes "settled base os tr" and "nets_ok (guarded mx)" and "router_ok (guarded mx)"
    and "timer_tick C os mx tr = Some (err, mx', tr')"
  shows "\<exists>reqs. addr_requests tr' = addr_requests tr @ reqs
    \<and> fold replay reqs (due base (guarded mx)) = due base (guarded mx')"
  using assms(3,4)
proof (cases rule: timer_tick_cases)
  case (advert w)
  then show ?thesis
    using addr_requests_sock [OF sock.ext_send_advertisement [OF advert(6)]]
      virtual_keys_same_config [OF same_config_fsm_step]
    by (simp add: due_def fsm_step_state)
next
  case (takeover w i)
  have "fold replay (event_requests base (guarded mx) MasterDown) (due base (guarded mx)) = due base (guarded mx')"
    using takeover(4,8) virtual_keys_same_config [OF same_config_fsm_step]
    by (simp add: event_requests_def due_def replay_virtual_requests fsm_step_state)
  with notify_mut_requests [OF assms(1,2) takeover(7)] show ?thesis by blast
qed simp_all

lemma turn_keeps_due:
  assumes "settled base os tr" and "nets_ok (guarded mx)" and "router_ok (guarded mx)"
    and "vr_mac_vlan_interface_v6 (guarded mx) = None" and "turn_of C P os inp mx tr = Some (go, mx', tr')"
  shows "\<exists>reqs. addr_requests tr' = addr_requests tr @ reqs
    \<and> fold replay reqs (due base (guarded mx)) = due base (guarded mx')"
proof -
  note packet = process_keeps_due [OF assms(1,2) router_ok_timers [OF assms(3)] assms(4)]
  show ?thesis
  proof (cases inp)
    case (GotVrrp rv)
    with assms(5) have "vrrp_turn C P os rv mx tr = Some (mx', tr')" by auto
    then show ?thesis by (cases rule: vrrp_turn_cases) (auto dest: packet)
  next
    case (GotVrrpV6 rv)
    with assms(5) have "vrrp_v6_turn C os rv mx tr = Some (mx', tr')" by auto
    then show ?thesis by (cases rule: vrrp_v6_turn_cases) (auto dest: packet)
  next
    case (GotArp ra)
    with assms(5) have "arp_turn C P os ra mx tr = Some (mx', tr')" by auto
    then show ?thesis
      by (cases rule: arp_turn_cases) (auto dest!: sock.ext_arp_handler dest: addr_requests_sock)
  next
    case (GotNdp rn)
    with assms(5) have "ndp_turn C os rn mx tr = Some (mx', tr')" by auto
    then show ?thesis
      by (cases rule: ndp_turn_cases) (auto dest!: sock.ext_ndp_handler dest: addr_requests_sock)
  next
    case GotTick
    with assms(5) obtain err where "timer_tick C os mx tr = Some (err, mx', tr')" by auto
    then show ?thesis by (rule tick_keeps_due [OF assms(1-3)])
  qed
qed

lemma shutdown_keeps_due:
  assumes "settled base os []" and "nets_ok (guarded mx)" and "router_ok (guarded mx)"
    and "notify C os mx Shutdown [] = Some (r, mx', tr')"
  shows "fold replay tr' (due base (guarded mx)) = due base (guarded mx')"
proof (cases "r = Inr () \<and> \<not> poisoned mx")
  case False
  have "mx' = mx \<and> tr' = []"
  proof (cases "poisoned mx")
    case True
    with assms(4) show ?thesis by (simp add: notify_def)
  next
    case live: False
    with assms(4) obtain vr where n: "notify_mut C os (guarded mx) Shutdown [] = Some (r, vr, tr')"
      and m: "mx' = mx\<lparr>guarded := vr\<rparr>"
      by (auto simp: notify_def bind_eq_Some_conv)
    from False live obtain err where "r = Inl err" by (cases r) auto
    with notify_mut_error [of C os "guarded mx" Shutdown "[]" err vr tr'] n m show ?thesis by simp
  qed
  then show ?thesis by simp
next
  case True
  let ?vr = "guarded mx"
  from True assms(4) have n: "notify_mut C os ?vr Shutdown [] = Some (Inr (), guarded mx', tr')"
    by (auto simp: notify_def bind_eq_Some_conv)
  have s: "guarded mx' = fsm_step (os_now os tr') (Raised Shutdown) ?vr"
    using notify_mut_outcome [OF router_ok_timers [OF assms(3)] n] by simp
  have "fsm_state (vr_fsm (guarded mx')) = Init"
    unfolding s fsm_step_state by (cases "fsm_state (vr_fsm ?vr)") simp_all
  then have "due base (guarded mx') = {}" by (simp add: due_def)
  moreover have reqs: "addr_requests tr' = event_requests base ?vr Shutdown"
    using notify_mut_requests [OF assms(1,2) n] by simp
  have none: "AddrAdd i a p \<notin> set tr'" for i a p
    using shutdown_adds_nothing added_requested reqs by metis
  have "fold replay tr' (due base ?vr) = {}"
  proof (cases "fsm_state (vr_fsm ?vr) = Master")
    case True
    have "(i, a, p) \<notin> fold replay tr' (virtual_keys base ?vr)" for i a p
    proof
      assume m: "(i, a, p) \<in> fold replay tr' (virtual_keys base ?vr)"
      with replay_subset [OF none] have "(i, a, p) \<in> virtual_keys base ?vr" by blast
      then have "AddrDel i a p \<in> set (addr_requests tr')"
        using True virtual_requests_members(2) by (simp add: reqs event_requests_def)
      then have "AddrDel i a p \<in> set tr'" by (rule removed_requested)
      with replay_removed [OF none] m show False by blast
    qed
    with True show ?thesis by (auto simp: due_def)
  next
    case False
    with replay_subset [OF none, of "{}"] show ?thesis by (simp add: due_def)
  qed
  ultimately show ?thesis by simp
qed

end

section \<open>A run on a calm host\<close>

text \<open>
  A run on a calm host: from the first event of the instance on, no request is refused and the
  lookups of links are answered as \<open>base\<close> answers them. Until then the host may answer as it
  likes, so the instance may find its mac-vlan or create it. The clock, the interfaces and what
  is received stay free throughout, and so do the address dumps.
\<close>

inductive calm_run :: "crates \<Rightarrow> pnet \<Rightarrow> os \<Rightarrow> config \<Rightarrow> system \<Rightarrow> bool" for C P base conf where
  start: "run_prepare os (config_to_vr C conf) [] = (Inr prepared, tr0) \<Longrightarrow> settled base os tr0 \<Longrightarrow>
          run_setup C os (config_to_vr C conf) [] = Some (Inr items, tr) \<Longrightarrow>
          calm_run C P base conf (started items tr)"
| turn: "calm_run C P base conf s \<Longrightarrow> settled base os [] \<Longrightarrow> task_of inp \<in> sys_tasks s \<Longrightarrow>
         calm_run C P base conf (run_turn C P os inp s)"
| task_ends: "calm_run C P base conf s \<Longrightarrow> calm_run C P base conf (s\<lparr>sys_tasks := sys_tasks s - {t}\<rparr>)"
| shutdown: "calm_run C P base conf s \<Longrightarrow> settled base os [] \<Longrightarrow>
         calm_run C P base conf (run_shutdown C os s)"

lemma calm_run_reachable: "calm_run C P base conf s \<Longrightarrow> reachable C P conf s"
  by (induction rule: calm_run.induct) (auto intro: reachable.intros sys_step.intros)

context ip_text
begin

lemma split_addresses_ok:
  "list_all net_ok4 (fst (split_addresses C strs))" "list_all net_ok6 (snd (split_addresses C strs))"
  by (induction strs) (auto simp: Let_def dest: parse_ok4 parse_ok6 split: option.split ip_net.split prod.split)

lemma instance_nets_ok: "instance_of C conf vr \<Longrightarrow> nets_ok vr"
  using split_addresses_ok by (simp add: nets_ok_def instance_of_def config_to_vr_addresses)

lemma startup_assigned:
  assumes "run_prepare os (config_to_vr C conf) [] = (Inr prepared, tr0)" and "settled base os tr0"
    and "run_setup C os (config_to_vr C conf) [] = Some (Inr items, tr)"
  shows "assigned tr = due base (guarded (it_vrouter items))"
proof -
  obtain mx where n: "notify C os (it_vrouter prepared) Startup tr0 = Some (Inr (), mx, tr)"
    and mx: "it_vrouter items = mx"
    using assms(3) by (rule run_setup_prepared) (use assms(1) that in auto)
  note prep = run_prepare_items [OF assms(1)]
  let ?vr = "guarded (it_vrouter prepared)"
  from n prep(1) obtain vr where nm: "notify_mut C os ?vr Startup tr0 = Some (Inr (), vr, tr)"
    and g: "guarded mx = vr"
    by (auto simp: notify_def bind_eq_Some_conv)
  have vr: "vr = fsm_step (os_now os tr) (Raised Startup) ?vr" using notify_mut_step [OF prep(3) nm] .
  have init: "fsm_state (vr_fsm ?vr) = Init" using prep(2) by (simp add: default_machine_def)
  obtain es where es: "tr = tr0 @ es" "list_all keeps_links es"
    using kept.ext_notify_mut [OF nm] by (auto simp: extends_def)
  have "addr_requests es = event_requests base ?vr Startup"
    using notify_mut_requests [OF assms(2) instance_nets_ok [OF prep(4)] nm] es(1) by simp
  then have "assigned tr = fold replay (event_requests base ?vr Startup) (assigned tr0)"
    using es replay_addr_requests by (simp add: assigned_append)
  also have "assigned tr0 = {}"
    using run_prepare_neutral [OF assms(1)] replay_neutral by (simp add: assigned_def)
  also have "fold replay (event_requests base ?vr Startup) {} = due base vr"
    using virtual_keys_same_config [OF same_config_fsm_step]
    by (simp add: vr due_def event_requests_def init replay_virtual_requests fsm_step_state)
  finally show ?thesis using g mx by simp
qed

lemma calm_turn_assigned:
  assumes "settled base os []" and "reachable C P conf s" and "cfg_version conf = V2"
    and "assigned (sys_log s) = due base (router_of s)" and "turn_of C P os inp (sys_mutex s) [] = Some (go, mx, tr)"
  shows "assigned (sys_log s @ tr) = due base (guarded mx)"
proof -
  have ok: "router_ok (guarded (sys_mutex s))" "instance_of C conf (guarded (sys_mutex s))"
    using reachable_keeps [OF assms(2)] by (simp_all add: router_of_def)
  have v6: "vr_mac_vlan_interface_v6 (guarded (sys_mutex s)) = None"
    using ok(2) assms(3) by (simp add: instance_of_def)
  from turn_keeps_due [OF assms(1) instance_nets_ok [OF ok(2)] ok(1) v6 assms(5)] obtain reqs where
    "addr_requests tr = reqs" and "fold replay reqs (due base (guarded (sys_mutex s))) = due base (guarded mx)"
    by auto
  moreover have "list_all keeps_links tr" using kept_turn.ext_turn_of [OF assms(5)] by simp
  ultimately show ?thesis
    using assms(4) replay_addr_requests by (simp add: assigned_append router_of_def)
qed

lemma calm_shutdown_assigned:
  assumes "settled base os []" and "reachable C P conf s"
    and "assigned (sys_log s) = due base (router_of s)" and "notify C os (sys_mutex s) Shutdown [] = Some (r, mx, tr)"
  shows "assigned (sys_log s @ tr) = due base (guarded mx)"
proof -
  have ok: "router_ok (guarded (sys_mutex s))" "nets_ok (guarded (sys_mutex s))"
    using reachable_keeps [OF assms(2)] instance_nets_ok by (auto simp: router_of_def)
  from shutdown_keeps_due [OF assms(1) ok(2,1) assms(4)] assms(3) show ?thesis
    by (simp add: assigned_append router_of_def)
qed

lemma calm_run_assigned:
  assumes "calm_run C P base conf s" and "cfg_version conf = V2"
  shows "assigned (sys_log s) = due base (router_of s)"
  using assms(1)
proof (induction rule: calm_run.induct)
  case (start os prepared tr0 items tr)
  from startup_assigned [OF start] show ?case by (simp add: router_of_def)
next
  case (turn s os inp)
  show ?case
  proof (cases "turn_of C P os inp (sys_mutex s) []")
    case None
    have "addr_requests (panic_requests C os (guarded (sys_mutex s)) []) = []"
      using addr_requests_sock [OF sock.ext_panic_requests] by (simp add: addr_requests_def)
    moreover have "list_all keeps_links (panic_requests C os (guarded (sys_mutex s)) [])"
      using kept.ext_panic_requests [where ?tr = "[]"] by simp
    ultimately show ?thesis
      using None turn.IH replay_addr_requests by (simp add: run_turn_def router_of_def assigned_append)
  next
    case (Some res)
    then obtain go mx tr where t: "turn_of C P os inp (sys_mutex s) [] = Some (go, mx, tr)"
      by (cases res) auto
    with calm_turn_assigned [OF turn(2) calm_run_reachable [OF turn(1)] assms(2) turn.IH t] show ?thesis
      by (simp add: run_turn_def router_of_def)
  qed
next
  case (task_ends s t)
  then show ?case by (simp add: router_of_def)
next
  case (shutdown s os)
  show ?case
  proof (cases "notify C os (sys_mutex s) Shutdown []")
    case None
    with shutdown.IH show ?thesis by (simp add: run_shutdown_def router_of_def)
  next
    case (Some res)
    then obtain r mx tr where n: "notify C os (sys_mutex s) Shutdown [] = Some (r, mx, tr)"
      by (cases res) auto
    with calm_shutdown_assigned [OF shutdown(2) calm_run_reachable [OF shutdown(1)] shutdown.IH n]
    show ?thesis by (simp add: run_shutdown_def router_of_def)
  qed
qed

end

section \<open>Properties of the addresses\<close>

lemma link_keys_found:
  "os_link base [] name = Inr (Some link) \<Longrightarrow> link_keys base name nets = net_key (link_index link) ` set nets"
  by (simp add: link_keys_def)

text \<open>C14: A version 2 instance holds its virtual addresses exactly while it is Master, on a host
  that, from its first event on, refuses no request and finds the link of its mac-vlan whenever
  it is looked up. In every state of such a run, whether the mac-vlan was there or had to be
  created, through any interleaving of tasks and any packets, replaying the netlink requests of
  the instance on a host without addresses gives all configured addresses with their prefix
  lengths, on the link of its mac-vlan, if the state is Master, and none in Backup and Init; in
  particular none is left after Shutdown.\<close>

theorem addresses_follow_state:
  assumes "ip_text C" and "calm_run C P base conf s" and "cfg_version conf = V2"
    and "os_link base [] (mac_vlan_name (cfg_interface_name conf) (cfg_vrid conf) FamV4) = Inr (Some link)"
  shows "assigned (sys_log s) =
    (if fsm_state (vr_fsm (router_of s)) = Master
     then (\<lambda>net. (link_index link, IpV4 (addr4 net), prefix_len4 net))
            ` set (vr_ipv4_addresses (config_to_vr C conf))
     else {})"
  using ip_text.calm_run_assigned [OF assms(1-3)] reachable_keeps [OF calm_run_reachable [OF assms(2)]]
    assms(3) link_keys_found [OF assms(4)]
  by (simp add: due_def virtual_keys_def instance_of_def net_key_def image_image)

text \<open>An instance that creates its mac-vlan and then takes over.\<close>

lemma example_settled: "settled (example_os a) (example_os b) tr"
  unfolding settled_def by (simp add: example_os_def)

lemma fresh_settled: "link_added tr \<Longrightarrow> settled (example_os a) (fresh_os b) tr"
  unfolding settled_def by (simp add: fresh_os_def) (simp add: example_os_def)

lemma fresh_interfaces:
  "get_interface (fresh_os now) ''eth0'' tr =
     Inr \<lparr>if_name = ''eth0'', if_mac = Some [2, 0, 0, 0, 0, 1], if_ips = [IpV4 (ipv4_new 10 0 0 2)]\<rparr>"
  "link_added tr \<Longrightarrow> get_interface (fresh_os now) ''fover4-51-9724'' tr =
     Inr \<lparr>if_name = ''fover4-51-9724'', if_mac = Some example_mac, if_ips = []\<rparr>"
  by (simp_all add: get_interface_def fresh_os_def example_interfaces_def)

lemma fresh_prepares:
  "\<exists>prepared tr0. run_prepare (fresh_os 0) (config_to_vr list_crates (example_config V2 100)) [] = (Inr prepared, tr0)
     \<and> link_added tr0"
proof -
  let ?vr = "config_to_vr list_crates (example_config V2 100)"
  have f: "vr_network_interface ?vr = ''eth0''" "vr_vrid ?vr = 51" "vr_version ?vr = V2"
    by (simp_all add: config_to_vr_fields) (simp_all add: example_config_def)
  have added: "link_added (xs @ LinkAddMacVlan n i md up m # ys)" for xs n i md up m ys
    by (simp add: link_added_def)
  show ?thesis
    using fresh_interfaces(2) [of "[NlConnect, LinkGetByName ''eth0'', LinkGetByName ''fover4-51-9724'',
      LinkAddMacVlan ''fover4-51-9724'' 2 Bridge True example_mac,
      FsWrite ''/proc/sys/net/ipv4/conf/fover4-51-9724/arp_ignore'' ''8'']" 0]
    by (simp add: run_prepare_def f fresh_interfaces(1) fresh_create primary_ipv4_def Let_def)
      (simp add: link_added_def f)
qed

lemma fresh_starts:
  obtains prepared tr0 items tr where
    "run_prepare (fresh_os 0) (config_to_vr list_crates (example_config V2 100)) [] = (Inr prepared, tr0)"
    and "settled (example_os 0) (fresh_os 0) tr0"
    and "run_setup list_crates (fresh_os 0) (config_to_vr list_crates (example_config V2 100)) []
       = Some (Inr items, tr)"
proof -
  let ?vr = "config_to_vr list_crates (example_config V2 100)"
  obtain prepared tr0 where p: "run_prepare (fresh_os 0) ?vr [] = (Inr prepared, tr0)"
    and added: "link_added tr0"
    using fresh_prepares by blast
  note prep = run_prepare_items [OF p]
  have f: "vr_priority (guarded (it_vrouter prepared)) = 100"
    "vr_mac_vlan_interface_v4 (guarded (it_vrouter prepared)) = ''fover4-51-9724''"
    using prep(4) by (simp_all add: instance_of_def example_config_def example_name)
  have "\<exists>items tr. run_setup list_crates (fresh_os 0) ?vr [] = Some (Inr items, tr)"
    using prep(1-3) f fresh_interfaces(2) [OF added, of 0]
    by (simp add: run_setup_def p notify_def notify_mut_def default_machine_def set_timers Let_def)
  with p fresh_settled [OF added] that show thesis by blast
qed

lemma example_becomes_master:
  obtains s where "calm_run list_crates standard_pnet (example_os 0) (example_config V2 100) s"
    and "fsm_state (vr_fsm (router_of s)) = Master"
proof -
  let ?os = "example_os (10 ^ 13)" and ?conf = "example_config V2 100"
  obtain prepared tr0 items tr where p: "run_prepare (fresh_os 0) (config_to_vr list_crates ?conf) [] = (Inr prepared, tr0)"
    and settled: "settled (example_os 0) (fresh_os 0) tr0"
    and su: "run_setup list_crates (fresh_os 0) (config_to_vr list_crates ?conf) [] = Some (Inr items, tr)"
    by (rule fresh_starts)
  have "os_now (fresh_os 0) t = 0" for t by (simp add: fresh_os_def)
  with setup_deadline [OF su] obtain w where
    w: "waiting_for (fsm_timer (vr_fsm (guarded (it_vrouter items)))) = Some w" "w < 10 ^ 13" by blast
  note items = run_setup_items [OF su]
  have v4: "vr_mac_vlan_interface_v4 (guarded (it_vrouter items)) = ''fover4-51-9724''"
    using items(3) by (simp add: instance_of_def example_config_def example_name)
  obtain mx' tr' where t: "timer_tick list_crates ?os (it_vrouter items) [] = Some (None, mx', tr')"
    and m: "fsm_state (vr_fsm (guarded mx')) = Master"
    by (rule lc.tick_takes_over [where mx = "it_vrouter items" and os = ?os and tr = "[]" and w = w
          and i = "\<lparr>if_name = ''fover4-51-9724'', if_mac = Some example_mac, if_ips = []\<rparr>"])
      (use items v4 w in \<open>simp_all add: example_config_def\<close>)
  have "calm_run list_crates standard_pnet (example_os 0) ?conf (started items tr)"
    using p settled su by (rule calm_run.start)
  then have "calm_run list_crates standard_pnet (example_os 0) ?conf
      (run_turn list_crates standard_pnet ?os GotTick (started items tr))"
    by (rule calm_run.turn [OF _ example_settled]) (simp add: spawned_tasks_def)
  moreover have "fsm_state (vr_fsm (router_of (run_turn list_crates standard_pnet ?os GotTick (started items tr)))) = Master"
    using t m by (simp add: run_turn_def router_of_def)
  ultimately show ?thesis by (rule that)
qed

theorem addresses_follow_state_witness:
  "\<exists>s. calm_run list_crates standard_pnet (example_os 0) (example_config V2 100) s
     \<and> assigned (sys_log s) = {(7, IpV4 (ipv4_new 10 0 0 1), 24)}"
proof -
  obtain s where s: "calm_run list_crates standard_pnet (example_os 0) (example_config V2 100) s"
    and m: "fsm_state (vr_fsm (router_of s)) = Master"
    by (rule example_becomes_master)
  have a: "vr_ipv4_addresses (config_to_vr list_crates (example_config V2 100)) = [example_net]"
    by (simp add: config_to_vr_addresses example_config_def example_parses)
  have c: "cfg_interface_name (example_config V2 100) = ''eth0''" "cfg_vrid (example_config V2 100) = 51"
    "cfg_version (example_config V2 100) = V2"
    by (simp_all add: example_config_def)
  have "os_link (example_os 0) [] (mac_vlan_name ''eth0'' 51 FamV4) = Inr (Some example_link)"
    unfolding example_name by (simp add: example_os_def)
  then have l: "os_link (example_os 0) [] (mac_vlan_name (cfg_interface_name (example_config V2 100))
      (cfg_vrid (example_config V2 100)) FamV4) = Inr (Some example_link)"
    unfolding c .
  have "assigned (sys_log s) = {(7, IpV4 (ipv4_new 10 0 0 1), 24)}"
    using addresses_follow_state [OF lt.ip_text_axioms s c(3) l] m a
    by (simp add: example_link_def example_net_def)
  with s show ?thesis by blast
qed







end
