(* ===== verification/Run.thy ===== *)
theory Run
  imports System
begin

text \<open>
  \<open>run\<close> of \<open>src/src/lib.rs\<close> from its first line to its last, for a given schedule of its tasks:
  set-up, the turns the scheduler happens to give the tasks, the registration of the SIGTERM
  handler, the wait for a signal or for the end of all tasks, Shutdown, and the turns the tasks
  still get before they are aborted. The theory \<open>System\<close> leaves the order of the turns open; every state that
  \<open>run\<close> goes through is reachable there. What is shown is when \<open>run\<close> waits, how it can
  end, and what it leaves behind in the system.
\<close>

section \<open>From the first line to the last\<close>

text \<open>
  What the scheduler does next: a turn of a task, with the system as the task finds it, or the
  end of a task. A turn of a task that has ended does not happen.
\<close>

datatype scheduled = Turn os input | Ends task

fun run_tasks :: "crates \<Rightarrow> pnet \<Rightarrow> scheduled list \<Rightarrow> system \<Rightarrow> system" where
  "run_tasks C P [] s = s"
| "run_tasks C P (Turn os inp # rest) s =
     run_tasks C P rest (if task_of inp \<in> sys_tasks s then run_turn C P os inp s else s)"
| "run_tasks C P (Ends t # rest) s = run_tasks C P rest (s\<lparr>sys_tasks := sys_tasks s - {t}\<rparr>)"

text \<open>
  How far \<open>run\<close> has come: it waits in its \<open>select!\<close>, it has panicked, or it has returned. What
  is left at the end: the result, the router if the tasks were started, and the requests.
\<close>

record run_end =
  end_result :: "failover_error + unit"
  end_mutex :: "router_mutex option"
  end_log :: trace

datatype run_state = Waiting system | Panicked | Returned run_end

text \<open>
  \<open>schedule\<close> is what the tasks did until the \<open>select!\<close> is left, or until the moment one looks;
  \<open>sigterm\<close> is the answer to the registration of the handler, which may fail while the tasks
  already run: then \<open>run\<close> returns without raising Shutdown, and the set of tasks is dropped with
  it. The \<open>select!\<close> is left only when a signal has arrived (\<open>signalled\<close>) or all tasks have ended.
  Shutdown then meets the system \<open>os_end\<close>, an error of it is only logged, and \<open>late\<close> is what the
  tasks still did between Shutdown and the end of \<open>abort_all\<close>.
\<close>

definition run ::
  "crates \<Rightarrow> pnet \<Rightarrow> os \<Rightarrow> io_error option \<Rightarrow> scheduled list \<Rightarrow> bool \<Rightarrow> os \<Rightarrow> scheduled list \<Rightarrow>
   virtual_router \<Rightarrow> run_state" where
  "run C P os sigterm schedule signalled os_end late vrouter =
     (case run_setup C os vrouter [] of
        None \<Rightarrow> Panicked
      | Some (Inl err, tr) \<Rightarrow> Returned \<lparr>end_result = Inl err, end_mutex = None, end_log = tr\<rparr>
      | Some (Inr items, tr) \<Rightarrow>
          let s = run_tasks C P schedule (started items tr) in
          (case sigterm of
             Some err \<Rightarrow> Returned \<lparr>end_result = Inl (NetworkFailure (SignalHandler err)),
                                  end_mutex = Some (sys_mutex s), end_log = sys_log s\<rparr>
           | None \<Rightarrow>
               if \<not> signalled \<and> sys_tasks s \<noteq> {} then Waiting s
               else (case notify C os_end (sys_mutex s) Shutdown [] of
                  None \<Rightarrow> Panicked
                | Some (_, mx, tr) \<Rightarrow>
                    let s = run_tasks C P late (s\<lparr>sys_mutex := mx, sys_log := sys_log s @ tr\<rparr>) in
                    Returned \<lparr>end_result = Inr (), end_mutex = Some (sys_mutex s),
                              end_log = sys_log s\<rparr>)))"

section \<open>A schedule stays among the reachable states\<close>

lemma run_tasks_reachable: "reachable C P conf s \<Longrightarrow> reachable C P conf (run_tasks C P schedule s)"
proof (induction schedule arbitrary: s)
  case Nil
  then show ?case by simp
next
  case (Cons x rest)
  then show ?case
    by (cases x) (auto intro: reachable.step sys_step.intros)
qed

section \<open>Who removes an interface\<close>

definition removes_none :: "trace \<Rightarrow> bool" where
  "removes_none tr \<longleftrightarrow> list_all (\<lambda>e. \<forall>i. e \<noteq> LinkDel i) tr"

lemma removes_none_simps [simp]:
  "removes_none []" "removes_none (e # tr) \<longleftrightarrow> (\<forall>i. e \<noteq> LinkDel i) \<and> removes_none tr"
  "removes_none (tr @ tr') \<longleftrightarrow> removes_none tr \<and> removes_none tr'"
  by (simp_all add: removes_none_def)

lemma removes_none_iff: "removes_none tr \<longleftrightarrow> (\<forall>i. LinkDel i \<notin> set tr)"
  by (auto simp: removes_none_def list_all_iff)

lemma kept_removes_none: "list_all keeps_links tr \<Longrightarrow> removes_none tr"
  by (auto simp: removes_none_def list_all_iff)

lemma create_removes_none:
  "create_mac_vlan os parent vid family tr = (r, tr') \<Longrightarrow> removes_none tr \<Longrightarrow> removes_none tr'"
  by (auto simp: create_mac_vlan_def perform_def Let_def split: sum.splits option.splits if_splits prod.splits)

lemma prepare_removes_none:
  assumes "run_prepare os vr [] = (r, tr)"
  shows "removes_none tr"
  using assms
  by (auto simp: run_prepare_def Let_def split: sum.splits prod.splits if_splits
      dest!: create_removes_none)

lemma setup_removes_none:
  assumes "run_setup C os vr [] = Some (r, tr)"
  shows "removes_none tr"
proof -
  obtain res tr0 where p: "run_prepare os vr [] = (res, tr0)" by fastforce
  note none = prepare_removes_none [OF p]
  show ?thesis
  proof (cases res)
    case (Inl e)
    with p assms none show ?thesis by (simp add: run_setup_def)
  next
    case (Inr items)
    with p assms obtain q mx tr1 where n: "notify C os (it_vrouter items) Startup tr0 = Some (q, mx, tr1)"
      and "(case q of Inl _ \<Rightarrow> None | Inr _ \<Rightarrow> Some (Inr (items\<lparr>it_vrouter := mx\<rparr>), tr1)) = Some (r, tr)"
      by (auto simp: run_setup_def bind_eq_Some_conv)
    then have "tr1 = tr" by (cases q) simp_all
    with n have "tr = tr0 \<or> (\<exists>vr'. notify_mut C os (guarded (it_vrouter items)) Startup tr0 = Some (q, vr', tr))"
      by (auto simp: notify_def bind_eq_Some_conv split: if_splits)
    with none show ?thesis
      using kept.ext_notify_mut by (fastforce simp: extends_def dest: kept_removes_none)
  qed
qed

lemma turn_removes_none: "removes_none (sys_log s) \<Longrightarrow> removes_none (sys_log (run_turn C P os inp s))"
  using kept_turn.ext_turn_of kept_removes_none [OF kept.ext_panic_requests [of "[]", simplified]]
  by (fastforce simp: run_turn_def split: option.split prod.split dest: kept_removes_none)

lemma tasks_remove_none: "removes_none (sys_log s) \<Longrightarrow> removes_none (sys_log (run_tasks C P schedule s))"
proof (induction schedule arbitrary: s)
  case Nil
  then show ?case by simp
next
  case (Cons x rest)
  then show ?case by (cases x) (simp_all add: turn_removes_none)
qed

section \<open>How a run ends\<close>

text \<open>Turns after Shutdown, in Init: the router stays as it is and nothing goes out.\<close>

definition silent :: "trace \<Rightarrow> bool" where
  "silent tr \<longleftrightarrow> payloads tr = [] \<and> addr_requests tr = [] \<and> removes_none tr"

lemma verified_silent:
  "verify_packet vr p ttl tr = (True, tr') \<Longrightarrow> payloads tr' = payloads tr \<and> addr_requests tr' = addr_requests tr"
  using verify_packet_accepts [of vr p ttl tr] verify_packet_accepted [of vr p ttl tr]
  by (auto simp: log_drop_def)

lemma init_keeps:
  assumes "fsm_state (vr_fsm (guarded mx)) = Init" and "\<not> poisoned mx"
    and "process_vrrp_packet C os payload src dst ttl mx tr = Some (r, mx', tr')"
  shows "mx' = mx \<and> payloads tr' = payloads tr \<and> addr_requests tr' = addr_requests tr"
  using assms(2,3)
proof (cases rule: process_cases)
  case (no_interface p)
  then show ?thesis using verified_silent by simp
next
  case (acted p iface tr1)
  from acted(5) assms(1) have "guarded mx' = guarded mx" "tr' = tr1" by (simp_all add: act_on_packet_def)
  with acted(4,6) show ?thesis using verified_silent by simp
qed (simp add: log_drop_def)

lemma init_turn:
  assumes "fsm_state (vr_fsm (guarded mx)) = Init" and "\<not> poisoned mx" and "machine_ok (vr_fsm (guarded mx))"
    and "turn_of C P os inp mx [] = Some (go, mx', tr)"
  shows "mx' = mx \<and> silent tr"
proof -
  note keeps = init_keeps [OF assms(1,2)]
  have "mx' = mx \<and> payloads tr = [] \<and> addr_requests tr = []"
  proof (cases inp)
    case (GotVrrp rv)
    with assms(4) have "vrrp_turn C P os rv mx [] = Some (mx', tr)" by auto
    then show ?thesis by (rule vrrp_turn_cases) (auto simp: addr_requests_def dest: keeps)
  next
    case (GotVrrpV6 rv)
    with assms(4) have "vrrp_v6_turn C os rv mx [] = Some (mx', tr)" by auto
    then show ?thesis by (rule vrrp_v6_turn_cases) (auto simp: addr_requests_def dest: keeps)
  next
    case (GotArp ra)
    with assms(4) have "arp_turn C P os ra mx [] = Some (mx', tr)" by auto
    then show ?thesis
      by (rule arp_turn_cases)
        (use assms(1) in \<open>auto simp: handle_incoming_arp_pkt_def bind_eq_Some_conv addr_requests_def Let_def
          split: if_splits sum.splits option.splits\<close>)
  next
    case (GotNdp rn)
    with assms(4) have "ndp_turn C os rn mx [] = Some (mx', tr)" by auto
    then show ?thesis
      by (rule ndp_turn_cases)
        (use assms(1) in \<open>auto simp: handle_incoming_ndp_pkt_def addr_requests_def Let_def
          split: if_splits option.splits\<close>)
  next
    case GotTick
    have "waiting_for (fsm_timer (vr_fsm (guarded mx))) = None"
      using assms(1,3) by (simp add: machine_ok_def)
    with GotTick assms(4) show ?thesis
      by (auto simp: timer_tick_def Let_def addr_requests_def split: if_splits timer_type.splits)
  qed
  moreover have "removes_none tr" using kept_turn.ext_turn_of [OF assms(4)] kept_removes_none by simp
  ultimately show ?thesis by (simp add: silent_def)
qed

context wire_crates
begin

lemma init_tasks:
  assumes "fsm_state (vr_fsm (guarded (sys_mutex s))) = Init" and "\<not> poisoned (sys_mutex s)"
    and "router_ok (guarded (sys_mutex s))"
  shows "sys_mutex (run_tasks C P late s) = sys_mutex s
    \<and> (\<exists>tr. sys_log (run_tasks C P late s) = sys_log s @ tr \<and> silent tr)"
  using assms
proof (induction late arbitrary: s)
  case Nil
  then show ?case by (simp add: silent_def addr_requests_def)
next
  case (Cons x late)
  show ?case
  proof (cases "\<exists>os inp. x = Turn os inp \<and> task_of inp \<in> sys_tasks s")
    case False
    then have "\<exists>T. run_tasks C P (x # late) s = run_tasks C P late (s\<lparr>sys_tasks := T\<rparr>)"
      by (cases x) (auto intro: exI [of _ "sys_tasks s"])
    with Cons.IH [of "s\<lparr>sys_tasks := T\<rparr>" for T] Cons.prems show ?thesis by fastforce
  next
    case True
    then obtain os inp where x: "x = Turn os inp" "task_of inp \<in> sys_tasks s" by blast
    have "turn_of C P os inp (sys_mutex s) [] \<noteq> None"
      using turn_of_panic_iff [OF Cons.prems(3)] Cons.prems(1) by simp
    then obtain go mx tr where t: "turn_of C P os inp (sys_mutex s) [] = Some (go, mx, tr)" by auto
    have "machine_ok (vr_fsm (guarded (sys_mutex s)))" using Cons.prems(3) by (simp add: router_ok_def)
    from init_turn [OF Cons.prems(1,2) this t] have m: "mx = sys_mutex s" and tr: "silent tr" by auto
    let ?s = "run_turn C P os inp s"
    have s: "sys_mutex ?s = sys_mutex s" "sys_log ?s = sys_log s @ tr"
      using t m by (simp_all add: run_turn_def)
    from Cons.IH [of ?s] Cons.prems s obtain tr' where
      "sys_mutex (run_tasks C P late ?s) = sys_mutex s"
      "sys_log (run_tasks C P late ?s) = (sys_log s @ tr) @ tr'" "silent tr'" by auto
    with x tr show ?thesis by (auto simp: silent_def addr_requests_def)
  qed
qed

text \<open>Shutdown, and what the tasks can still do after it.\<close>

lemma shutdown_phase:
  assumes "router_ok (guarded (sys_mutex s))"
  shows "if poisoned (sys_mutex s)
            \<or> (\<forall>i. get_interface os (vr_mac_vlan_interface_v4 (router_of s)) [] \<noteq> Inr i)
    then \<exists>r. notify C os (sys_mutex s) Shutdown [] = Some (r, sys_mutex s, [])
    else \<exists>mx tr tr_late. notify C os (sys_mutex s) Shutdown [] = Some (Inr (), mx, tr)
      \<and> fsm_state (vr_fsm (guarded mx)) = Init \<and> silent tr_late
      \<and> sys_mutex (run_tasks C P late (s\<lparr>sys_mutex := mx, sys_log := sys_log s @ tr\<rparr>)) = mx
      \<and> sys_log (run_tasks C P late (s\<lparr>sys_mutex := mx, sys_log := sys_log s @ tr\<rparr>))
          = sys_log s @ tr @ tr_late"
proof (cases "poisoned (sys_mutex s)")
  case True
  then show ?thesis by (simp add: notify_def)
next
  case False
  let ?vr = "guarded (sys_mutex s)"
  note t = router_ok_timers [OF assms]
  show ?thesis
  proof (cases "get_interface os (vr_mac_vlan_interface_v4 (router_of s)) []")
    case (Inl e)
    then have "notify C os (sys_mutex s) Shutdown [] = Some (Inl e, sys_mutex s, [])"
      using False by (simp add: notify_def notify_mut_no_interface router_of_def)
    with Inl False show ?thesis by simp
  next
    case (Inr j)
    have "notify_mut C os ?vr Shutdown [] \<noteq> None" using notify_mut_panic_iff [OF t] by simp
    then obtain r vr tr where n: "notify_mut C os ?vr Shutdown [] = Some (r, vr, tr)" by auto
    have ok: "r = Inr ()" "vr = fsm_step (os_now os tr) (Raised Shutdown) ?vr"
      using notify_mut_outcome [OF t n] Inr by (auto simp: router_of_def split: sum.splits)
    let ?mx = "(sys_mutex s)\<lparr>guarded := vr\<rparr>"
    let ?s = "s\<lparr>sys_mutex := ?mx, sys_log := sys_log s @ tr\<rparr>"
    have init: "fsm_state (vr_fsm vr) = Init"
      unfolding ok(2) fsm_step_state by (cases "fsm_state (vr_fsm ?vr)") simp_all
    have "router_ok vr" using router_ok_step [OF assms] ok(2) by simp
    with init_tasks [of ?s P late] init False obtain tr_late where
      "sys_mutex (run_tasks C P late ?s) = ?mx"
      "sys_log (run_tasks C P late ?s) = (sys_log s @ tr) @ tr_late" "silent tr_late" by auto
    moreover have "notify C os (sys_mutex s) Shutdown [] = Some (Inr (), ?mx, tr)"
      using n ok(1) False by (simp add: notify_def)
    moreover have there: "\<not> (poisoned (sys_mutex s)
        \<or> (\<forall>i. get_interface os (vr_mac_vlan_interface_v4 (router_of s)) [] \<noteq> Inr i))"
      using Inr False by simp
    ultimately show ?thesis
      unfolding if_not_P [OF there] using init
      by (intro exI [of _ ?mx] exI [of _ tr] exI [of _ tr_late]) simp
  qed
qed

end

text \<open>C15: Every way \<open>run\<close> can go, for every schedule of its tasks, once its set-up has not
  panicked; after that \<open>run\<close> never panics. If set-up failed it returns that error; if the
  SIGTERM handler could not be registered it returns that error although the tasks have run. In
  both cases nothing is undone: the log ends with what set-up and the tasks requested, no
  interface is removed, so created mac-vlans stay, and so do the addresses of an instance that
  was Master. Otherwise it waits until a signal arrives or all tasks have ended, and raises
  Shutdown. If a task has panicked with the lock, or the mac-vlan is gone, Shutdown changes
  nothing and requests nothing, and \<open>run\<close> returns success all the same. Else Shutdown succeeds and
  leaves Init, which is how the instance ends: the turns that tasks still get before they are
  aborted change no router, send nothing, and touch neither addresses nor interfaces.\<close>

theorem run_ends:
  assumes "wire_crates C" and "run_setup C os (config_to_vr C conf) [] = Some setup_end"
  shows "case setup_end of
      (Inl err, tr) \<Rightarrow>
        run C P os sigterm schedule signalled os_end late (config_to_vr C conf)
          = Returned \<lparr>end_result = Inl err, end_mutex = None, end_log = tr\<rparr>
        \<and> (\<forall>i. LinkDel i \<notin> set tr)
    | (Inr items, tr) \<Rightarrow>
        let s = run_tasks C P schedule (started items tr);
            outcome = run C P os sigterm schedule signalled os_end late (config_to_vr C conf)
        in reachable C P conf s \<and>
          (case sigterm of
             Some err \<Rightarrow>
               outcome = Returned \<lparr>end_result = Inl (NetworkFailure (SignalHandler err)),
                                   end_mutex = Some (sys_mutex s), end_log = sys_log s\<rparr>
               \<and> (\<forall>i. LinkDel i \<notin> set (sys_log s))
           | None \<Rightarrow>
               if \<not> signalled \<and> sys_tasks s \<noteq> {} then outcome = Waiting s
               else if poisoned (sys_mutex s)
                  \<or> (\<forall>i. get_interface os_end (vr_mac_vlan_interface_v4 (router_of s)) [] \<noteq> Inr i)
               then outcome = Returned \<lparr>end_result = Inr (),
                      end_mutex = Some (sys_mutex (run_tasks C P late s)),
                      end_log = sys_log (run_tasks C P late s)\<rparr>
               else (\<exists>mx tr_end tr_late.
                      notify C os_end (sys_mutex s) Shutdown [] = Some (Inr (), mx, tr_end)
                    \<and> fsm_state (vr_fsm (guarded mx)) = Init
                    \<and> outcome = Returned \<lparr>end_result = Inr (), end_mutex = Some mx,
                                          end_log = sys_log s @ tr_end @ tr_late\<rparr>
                    \<and> payloads tr_late = [] \<and> addr_requests tr_late = []
                    \<and> (\<forall>i. LinkDel i \<notin> set tr_late)))"
proof (cases setup_end)
  case (Pair r tr)
  show ?thesis
  proof (cases r)
    case (Inl err)
    with setup_removes_none assms(2) Pair show ?thesis
      by (simp add: run_def removes_none_iff)
  next
    case (Inr items)
    let ?s = "run_tasks C P schedule (started items tr)"
    have su: "run_setup C os (config_to_vr C conf) [] = Some (Inr items, tr)"
      using assms(2) Pair Inr by simp
    have none: "removes_none (sys_log ?s)"
      using tasks_remove_none [of "started items tr" C P schedule] setup_removes_none [OF su] by simp
    have reach: "reachable C P conf ?s"
      by (rule run_tasks_reachable [OF reachable.start [OF su]])
    then have ok: "router_ok (guarded (sys_mutex ?s))" using reachable_keeps by (simp add: router_of_def)
    show ?thesis
    proof (cases sigterm)
      case (Some err)
      with su Pair Inr none reach show ?thesis by (simp add: run_def Let_def removes_none_iff)
    next
      case None
      note phase = wire_crates.shutdown_phase [OF assms(1) ok, of os_end P late]
      let ?gone = "poisoned (sys_mutex ?s)
          \<or> (\<forall>i. get_interface os_end (vr_mac_vlan_interface_v4 (router_of ?s)) [] \<noteq> Inr i)"
      consider (waits) "\<not> signalled \<and> sys_tasks ?s \<noteq> {}"
        | (fails) "\<not> (\<not> signalled \<and> sys_tasks ?s \<noteq> {})" ?gone
        | (stops) "\<not> (\<not> signalled \<and> sys_tasks ?s \<noteq> {})" "\<not> ?gone" by blast
      then show ?thesis
      proof cases
        case waits
        with su Pair Inr None reach show ?thesis by (simp add: run_def Let_def)
      next
        case fails
        from phase fails(2) obtain q where "notify C os_end (sys_mutex ?s) Shutdown [] = Some (q, sys_mutex ?s, [])"
          by (simp only: if_True) blast
        with fails su Pair Inr None reach show ?thesis by (simp add: run_def Let_def)
      next
        case stops
        from phase stops(2) obtain mx tr_end tr_late where
          n: "notify C os_end (sys_mutex ?s) Shutdown [] = Some (Inr (), mx, tr_end)"
          "fsm_state (vr_fsm (guarded mx)) = Init" "silent tr_late"
          "sys_mutex (run_tasks C P late (?s\<lparr>sys_mutex := mx, sys_log := sys_log ?s @ tr_end\<rparr>)) = mx"
          "sys_log (run_tasks C P late (?s\<lparr>sys_mutex := mx, sys_log := sys_log ?s @ tr_end\<rparr>))
             = sys_log ?s @ tr_end @ tr_late"
          by (simp only: if_False) blast
        have "run C P os sigterm schedule signalled os_end late (config_to_vr C conf)
            = Returned \<lparr>end_result = Inr (), end_mutex = Some mx, end_log = sys_log ?s @ tr_end @ tr_late\<rparr>"
          using su None stops(1) n(1,4,5) by (simp add: run_def Let_def)
        with n(1-3) stops reach Pair Inr None show ?thesis
          by (simp only: Let_def prod.case sum.case option.case if_False silent_def removes_none_iff) blast
      qed
    qed
  qed
qed

theorem run_ends_witness:
  "\<exists>mx requests. run list_crates standard_pnet (example_os 0) None [Ends ArpTask] True (example_os 9) [Turn (example_os 10) GotTick]
       (config_to_vr list_crates (example_config V2 100))
       = Returned \<lparr>end_result = Inr (), end_mutex = Some mx, end_log = requests\<rparr>
     \<and> fsm_state (vr_fsm (guarded mx)) = Init"
proof -
  let ?conf = "example_config V2 100" and ?late = "[Turn (example_os 10) GotTick]"
  obtain items tr where su: "run_setup list_crates (example_os 0) (config_to_vr list_crates ?conf) []
      = Some (Inr items, tr)"
    using example_starts by blast
  let ?s = "run_tasks list_crates standard_pnet [Ends ArpTask] (started items tr)"
  have s: "sys_mutex ?s = it_vrouter items" by simp
  have np: "\<not> poisoned (sys_mutex ?s)" using run_setup_items(1) [OF su] s by simp
  have "vr_mac_vlan_interface_v4 (router_of ?s) = ''fover4-51-9724''"
    using run_setup_items(3) [OF su] s
    by (simp add: router_of_def instance_of_def example_config_def example_name)
  then have there: "get_interface (example_os 9) (vr_mac_vlan_interface_v4 (router_of ?s)) [] =
      Inr \<lparr>if_name = ''fover4-51-9724'', if_mac = Some example_mac, if_ips = []\<rparr>" by simp
  then have there': "\<not> (poisoned (sys_mutex ?s)
      \<or> (\<forall>i. get_interface (example_os 9) (vr_mac_vlan_interface_v4 (router_of ?s)) [] \<noteq> Inr i))"
    using np by blast
  note e = run_ends [OF lc.wire_crates_axioms su, of standard_pnet None "[Ends ArpTask]" True "example_os 9" ?late,
      unfolded prod.case sum.case option.case Let_def]
  from e [THEN conjunct2] there' show ?thesis
    by (simp only: not_True_eq_False simp_thms if_False) blast
qed

end
