(* ===== verification/Messages.thy ===== *)
theory Messages
  imports Config
begin

text \<open>
  The texts of \<open>src/src/error.rs\<close> (the \<open>Display\<close> that \<open>thiserror\<close> derives from the formats) and the
  lines the program logs with them: \<open>log_drop\<close> of \<open>src/src/pkt/handlers.rs\<close> and \<open>main\<close>. The texts
  of errors that come from outside are a parameter. The text of a refused packet
  determines the reason, so a log line says exactly which check failed and with which values.
\<close>

section \<open>Formatting\<close>

text \<open>
  \<open>{:?}\<close> on a string: quotation marks and backslashes are escaped and so are control characters. A
  byte from 0x80 on belongs to a character beyond ASCII and is taken for printable.
\<close>

definition escape_debug :: "char \<Rightarrow> string" where
  "escape_debug c =
     (let n = of_char c :: nat in
      if n = 0 then [CHR 0x5C, CHR ''0'']
      else if n = 9 then [CHR 0x5C, CHR ''t'']
      else if n = 10 then [CHR 0x5C, CHR ''n'']
      else if n = 13 then [CHR 0x5C, CHR ''r'']
      else if n = 34 \<or> n = 92 then [CHR 0x5C, c]
      else if n < 32 \<or> n = 127 then [CHR 0x5C, CHR ''u'', CHR ''{''] @ show_hex n @ [CHR ''}'']
      else [c])"

definition show_debug :: "string \<Rightarrow> string" where
  "show_debug s = [CHR 0x22] @ concat (map escape_debug s) @ [CHR 0x22]"

definition show_u8 :: "u8 \<Rightarrow> string" where
  "show_u8 n = show_dec (unat n)"

definition show_version :: "vrrp_version \<Rightarrow> string" where
  "show_version v = ''VRRP v'' @ show_u8 (as_u8 v)"

record foreign_texts =
  tx_io :: "io_error \<Rightarrow> string"
  tx_rtnl :: "rtnl_error \<Rightarrow> string"
  tx_json :: "json_error \<Rightarrow> string"
  tx_log :: "log_config_error \<Rightarrow> string"

section \<open>The texts\<close>

fun packet_error_text :: "packet_error \<Rightarrow> string" where
  "packet_error_text (UnsupportedVersion n) = ''unsupported VRRP version '' @ show_u8 n"
| "packet_error_text Malformed = ''packet is malformed or truncated''"
| "packet_error_text (BadTtl n) = ''IP TTL '' @ show_u8 n @ '' != 255''"
| "packet_error_text BadChecksum = ''invalid VRRP checksum''"
| "packet_error_text (VridMismatch expected received) =
     ''VRID '' @ show_u8 received @ '' does not match configured VRID '' @ show_u8 expected"
| "packet_error_text (AdvertIntervalMismatch expected received) =
     ''advertisement interval '' @ show_u8 received @ '' does not match configured interval ''
     @ show_u8 expected"
| "packet_error_text (IpCountMismatch expected received) =
     ''IP address count '' @ show_u8 received @ '' does not match configured count ''
     @ show_u8 expected"
| "packet_error_text IpListMismatch = ''IP address list does not match configured addresses''"

fun net_error_text :: "foreign_texts \<Rightarrow> net_error \<Rightarrow> string" where
  "net_error_text T (InterfaceNotFound n) = ''unable to find interface with name '' @ n"
| "net_error_text T (NoIpv4Address n) = ''interface '' @ n @ '' has no IPv4 address configured''"
| "net_error_text T (NetlinkConnect source) =
     ''unable to open netlink connection: '' @ tx_io T source"
| "net_error_text T (InterfaceLookup n source) =
     ''problem fetching interface '' @ n @ '': '' @ tx_rtnl T source"
| "net_error_text T (NotMacVlan n) =
     ''interface '' @ n @ '' already exists and is not a mac-vlan; refusing to touch it''"
| "net_error_text T (MacVlanMismatch n reason) =
     ''mac-vlan '' @ n @ '' already exists but '' @ reason @ ''; refusing to reuse it''"
| "net_error_text T (StaleMacVlanRemoval n source) =
     ''unable to remove stale mac-vlan '' @ n @ '': '' @ tx_rtnl T source"
| "net_error_text T (MacVlanCreate n source) =
     ''unable to create mac-vlan interface '' @ n @ '': '' @ tx_rtnl T source"
| "net_error_text T (SocketBind kind iface source) =
     ''unable to bind '' @ kind @ '' listening socket on '' @ iface @ '': '' @ tx_io T source"
| "net_error_text T (SignalHandler source) =
     ''unable to install SIGTERM handler: '' @ tx_io T source"
| "net_error_text T LockPoisoned = ''unable to lock virtual router state''"

fun config_error_text :: "foreign_texts \<Rightarrow> config_error \<Rightarrow> string" where
  "config_error_text T (FileOpen path source) =
     ''unable to open config file '' @ path @ '': '' @ tx_io T source"
| "config_error_text T (FileCreate path source) =
     ''unable to create config file '' @ path @ '': '' @ tx_io T source"
| "config_error_text T (NoParentDirectory path) =
     ''unable to determine parent directory of config path '' @ path"
| "config_error_text T (Parse path source) =
     ''problem parsing config file '' @ path @ '': '' @ tx_json T source"
| "config_error_text T (LogFileOpen path source) =
     ''unable to open log file '' @ path @ '': '' @ tx_io T source"
| "config_error_text T (LoggingSetup source) = ''unable to initialize logging: '' @ tx_log T source"
| "config_error_text T (InvalidVersion n) =
     ''VRRP version '' @ show_u8 n @ '' is invalid for instance; must be 2 or 3''"
| "config_error_text T (IPFormatting addr) = ''Invalid IP Formatting: '' @ addr"
| "config_error_text T (DuplicateName n v) =
     ''duplicate Virtual Router name '' @ show_debug n @ '' for VRRPv'' @ show_u8 v
     @ ''; names must be unique per version (rename one of the two, or give them different \"version\" values)''"
| "config_error_text T (DuplicateVrid vid v) =
     ''duplicate VRID '' @ show_u8 vid @ '' for VRRPv'' @ show_u8 v
     @ ''; vrid must be unique per version (pick a different vrid, or give them different \"version\" values)''"
| "config_error_text T (AdvertIntervalTooLarge n interval) =
     ''('' @ n @ '') advertisement interval '' @ show_u8 interval
     @ ''s exceeds the maximum VRRPv3 can encode (40s); lower advert_interval or run this instance as v2''"
| "config_error_text T (Ipv6NotSupportedInV2 n addr) =
     ''('' @ n @ '') VRRPv2 only supports IPv4, but IPv6 address '' @ show_debug addr
     @ '' was configured; remove it or set \"version\": 3''"

fun failover_error_text :: "foreign_texts \<Rightarrow> failover_error \<Rightarrow> string" where
  "failover_error_text T (ConfigFailure e) = config_error_text T e"
| "failover_error_text T (NetworkFailure e) = net_error_text T e"

section \<open>The lines logged\<close>

definition drop_line :: "string \<Rightarrow> packet_error \<Rightarrow> string" where
  "drop_line vrouter_name reason =
     ''('' @ vrouter_name @ '') dropping VRRP packet: '' @ packet_error_text reason"

definition load_error_line :: "foreign_texts \<Rightarrow> failover_error \<Rightarrow> string" where
  "load_error_line T err = ''Error reading configs '' @ failover_error_text T err"

section \<open>What a text tells\<close>

definition digit :: "char \<Rightarrow> bool" where
  "digit c \<longleftrightarrow> c \<in> set ''0123456789''"

lemma digit_char_digit: "d < 10 \<Longrightarrow> digit (digit_char d)"
  by (auto simp: digit_def digit_char_def less_Suc_eq numeral_eq_Suc)

lemma show_dec_digits: "list_all digit (show_dec n)"
proof (induction n rule: show_dec.induct)
  case (1 n)
  then show ?case
    by (cases "n < 10") (simp_all add: show_dec.simps [of n] digit_char_digit)
qed

lemma digits_then:
  assumes "list_all digit x" and "list_all digit y" and "\<not> digit c" and "x @ c # r = y @ c # s"
  shows "x = y \<and> r = s"
proof -
  have t: "takeWhile digit (z @ c # q) = z \<and> dropWhile digit (z @ c # q) = c # q"
    if "list_all digit z" for z q
    using that assms(3) by (simp add: takeWhile_append dropWhile_append list_all_iff)
  have "x = y \<and> c # r = c # s"
    using t [OF assms(1), of r] t [OF assms(2), of s] unfolding assms(4) by simp
  then show ?thesis by simp
qed

lemma show_u8_inj [simp]: "show_u8 m = show_u8 n \<longleftrightarrow> m = n"
  by (simp add: show_u8_def show_dec_inj word_unat_eq_iff)

lemma show_u8_then [simp]:
  assumes "\<not> digit c"
  shows "show_u8 m @ c # r = show_u8 n @ c # s \<longleftrightarrow> m = n \<and> r = s"
proof
  assume "show_u8 m @ c # r = show_u8 n @ c # s"
  from digits_then [OF show_dec_digits show_dec_digits assms this [unfolded show_u8_def]]
  show "m = n \<and> r = s" by (simp add: show_dec_inj word_unat_eq_iff)
qed simp

lemma space_no_digit [simp]: "\<not> digit CHR '' ''"
  by (simp add: digit_def)

text \<open>A line logged for a dropped packet names the reason: two reasons with the same line are
  the same reason, with the same numbers.\<close>

theorem drop_line_tells:
  "drop_line vrouter_name reason = drop_line vrouter_name reason' \<longleftrightarrow> reason = reason'"
  unfolding drop_line_def
  by (cases reason; cases reason') auto

end
