(* ===== verification/Unit_Tests.thy ===== *)
theory Unit_Tests
  imports Config
begin

text \<open>
  The unit tests of the repository, run on the model: the test modules of \<open>src/src/packet.rs\<close>,
  \<open>src/src/general.rs\<close>, \<open>src/src/state_machine.rs\<close> and \<open>src/src/config.rs\<close>. A test is a
  \<open>bool\<close>: whether all its assertions hold. Where a test uses a crate, it gets the crates as
  an argument, and it passes for every crate that keeps the documented laws.
\<close>

section \<open>The message codec\<close>

definition sample_v4_packet :: "vrrp_version \<Rightarrow> u8 \<Rightarrow> vrrp_packet" where
  "sample_v4_packet ver count_ip =
     \<lparr>version = ver, vrid = 51, priority = 100, adver_int_cs = 100,
      addresses = AddrsV4 (map (\<lambda>i. ipv4_new 192 168 100 (word_of_nat i)) [0..<unat count_ip])\<rparr>"

definition sample_v6_packet :: "u8 \<Rightarrow> vrrp_packet" where
  "sample_v6_packet count_ip =
     \<lparr>version = V3, vrid = 51, priority = 100, adver_int_cs = 250,
      addresses = AddrsV6
        (map (\<lambda>i. ipv6_new 0xfd00 0 0 0 0 0 0 (word_of_nat i)) [0..<unat count_ip])\<rparr>"

definition DUMMY_V4 :: ip_addr where "DUMMY_V4 = IpV4 UNSPECIFIED4"

definition LOCALHOST6 :: u128 where "LOCALHOST6 = 1"

text \<open>What a test sees of the encoder and the decoder: a panic fails it.\<close>

definition encoded_then :: "crates \<Rightarrow> vrrp_packet \<Rightarrow> ip_addr \<Rightarrow> (bytes \<Rightarrow> bool) \<Rightarrow> bool" where
  "encoded_then C pkt src check = (case encode C pkt src of Some b \<Rightarrow> check b | None \<Rightarrow> False)"

definition decoded_then ::
  "crates \<Rightarrow> bytes \<Rightarrow> ip_addr \<Rightarrow> ip_addr \<Rightarrow> (packet_error + vrrp_packet \<Rightarrow> bool) \<Rightarrow> bool" where
  "decoded_then C b src dst check = (case decode C b src dst of Some r \<Rightarrow> check r | None \<Rightarrow> False)"

definition v2_encode_decode_roundtrip_various_ip_counts :: "crates \<Rightarrow> bool" where
  "v2_encode_decode_roundtrip_various_ip_counts C = list_all (\<lambda>count.
     let pkt = sample_v4_packet V2 count in
     encoded_then C pkt DUMMY_V4 (\<lambda>encoded. decoded_then C encoded DUMMY_V4 DUMMY_V4 (\<lambda>r. case r of
       Inl _ \<Rightarrow> False
     | Inr decoded \<Rightarrow> version decoded = V2 \<and> vrid decoded = vrid pkt \<and> priority decoded = priority pkt
         \<and> adver_int_cs decoded = adver_int_cs pkt \<and> addresses decoded = addresses pkt)))
     [0, 1, 2, word_of_nat MAX_IP_COUNT]"

definition v3_v4_encode_decode_roundtrip_has_no_auth_trailer :: "crates \<Rightarrow> bool" where
  "v3_v4_encode_decode_roundtrip_has_no_auth_trailer C =
     (let pkt = sample_v4_packet V3 2 in
      encoded_then C pkt DUMMY_V4 (\<lambda>encoded. length encoded = 8 + 2 * 4
        \<and> decoded_then C encoded DUMMY_V4 DUMMY_V4 (\<lambda>r. case r of
            Inl _ \<Rightarrow> False
          | Inr decoded \<Rightarrow> version decoded = V3 \<and> addresses decoded = addresses pkt
              \<and> adver_int_cs decoded = 100)))"

definition v3_v6_encode_decode_roundtrip_and_checksum_uses_pseudo_header :: "crates \<Rightarrow> bool" where
  "v3_v6_encode_decode_roundtrip_and_checksum_uses_pseudo_header C =
     (let src = ipv6_new 0xfe80 0 0 0 0 0 0 1; dst = VRRP_V6_MCAST_ADDR; pkt = sample_v6_packet 2;
          wrong_src = ipv6_new 0xfe80 0 0 0 0 0 0 2
      in encoded_then C pkt (IpV6 src) (\<lambda>encoded.
           decoded_then C encoded (IpV6 src) (IpV6 dst) (\<lambda>r. case r of
             Inl _ \<Rightarrow> False
           | Inr decoded \<Rightarrow> addresses decoded = addresses pkt \<and> adver_int_cs decoded = adver_int_cs pkt)
         \<and> decoded_then C encoded (IpV6 wrong_src) (IpV6 dst) (\<lambda>r. r = Inl BadChecksum)))"

definition v3_interval_field_is_clamped_to_12_bits :: "crates \<Rightarrow> bool" where
  "v3_interval_field_is_clamped_to_12_bits C =
     encoded_then C ((sample_v4_packet V3 1)\<lparr>adver_int_cs := 0xFFFF\<rparr>) DUMMY_V4 (\<lambda>encoded.
       decoded_then C encoded DUMMY_V4 DUMMY_V4 (\<lambda>r. case r of
         Inl _ \<Rightarrow> False
       | Inr decoded \<Rightarrow> adver_int_cs decoded = 0x0FFF))"

definition v2_over_ipv6_is_rejected :: "crates \<Rightarrow> bool" where
  "v2_over_ipv6_is_rejected C =
     encoded_then C (sample_v6_packet 1) (IpV6 LOCALHOST6) (\<lambda>encoded.
       decoded_then C (encoded[0 := push_bit 4 2 OR (encoded ! 0 AND 0x0F)])
         (IpV6 LOCALHOST6) (IpV6 VRRP_V6_MCAST_ADDR) (\<lambda>r. r = Inl (UnsupportedVersion 2)))"

definition decode_rejects_empty_buffer :: "crates \<Rightarrow> bool" where
  "decode_rejects_empty_buffer C = decoded_then C [] DUMMY_V4 DUMMY_V4 (\<lambda>r. r = Inl Malformed)"

definition decode_rejects_buffer_shorter_than_min_length :: "crates \<Rightarrow> bool" where
  "decode_rejects_buffer_shorter_than_min_length C =
     encoded_then C (sample_v4_packet V2 0) DUMMY_V4 (\<lambda>encoded.
       decoded_then C (take (length encoded - 1) encoded) DUMMY_V4 DUMMY_V4 (\<lambda>r. r = Inl Malformed))"

definition decode_rejects_buffer_longer_than_max_length :: "crates \<Rightarrow> bool" where
  "decode_rejects_buffer_longer_than_max_length C =
     encoded_then C (sample_v4_packet V2 (word_of_nat MAX_IP_COUNT)) DUMMY_V4 (\<lambda>encoded.
       decoded_then C (encoded @ [0]) DUMMY_V4 DUMMY_V4 (\<lambda>r. r = Inl Malformed))"

definition decode_rejects_unsupported_version :: "crates \<Rightarrow> bool" where
  "decode_rejects_unsupported_version C =
     encoded_then C (sample_v4_packet V2 1) DUMMY_V4 (\<lambda>encoded.
       decoded_then C (encoded[0 := push_bit 4 7 OR (encoded ! 0 AND 0x0F)]) DUMMY_V4 DUMMY_V4
         (\<lambda>r. r = Inl (UnsupportedVersion 7)))"

definition decode_rejects_count_ip_disagreeing_with_length :: "crates \<Rightarrow> bool" where
  "decode_rejects_count_ip_disagreeing_with_length C =
     encoded_then C (sample_v4_packet V2 1) DUMMY_V4 (\<lambda>encoded.
       decoded_then C (encoded[3 := 2]) DUMMY_V4 DUMMY_V4 (\<lambda>r. r = Inl Malformed))"

text \<open>The samples, and what their encodings start with.\<close>

lemma sample_fields [simp]:
  "version (sample_v4_packet v n) = v" "vrid (sample_v4_packet v n) = 51"
  "priority (sample_v4_packet v n) = 100" "adver_int_cs (sample_v4_packet v n) = 100"
  "version (sample_v6_packet n) = V3" "adver_int_cs (sample_v6_packet n) = 250"
  by (simp_all add: sample_v4_packet_def sample_v6_packet_def)

lemma sample_addresses:
  obtains addrs where "addresses (sample_v4_packet v n) = AddrsV4 addrs" "length addrs = unat n"
  by (simp add: sample_v4_packet_def)

lemma sample_addresses_v6:
  obtains addrs where "addresses (sample_v6_packet n) = AddrsV6 addrs" "length addrs = unat n"
  by (simp add: sample_v6_packet_def)

lemma interval_fits_samples [simp]: "interval_fits v 100" "interval_fits V3 250"
  by (cases v; simp)+

lemma flip_nibble:
  "drop_bit 4 (push_bit 4 2 OR (b AND 0x0F) :: u8) = 2"
  "drop_bit 4 (push_bit 4 7 OR (b AND 0x0F) :: u8) = 7"
proof -
  have "drop_bit 4 (b AND mask 4) = 0"
    by (simp add: drop_bit_take_bit flip: take_bit_eq_mask)
  moreover have "mask 4 = (0x0F :: u8)" by (simp add: mask_eq_exp_minus_1)
  ultimately have z: "drop_bit 4 (b AND 0x0F) = 0" by metis
  show "drop_bit 4 (push_bit 4 2 OR (b AND 0x0F) :: u8) = 2"
    "drop_bit 4 (push_bit 4 7 OR (b AND 0x0F) :: u8) = 7"
    by (simp_all only: drop_bit_or z) simp_all
qed

context wire_crates
begin

lemma encoded_v4:
  obtains addrs c where "addresses (sample_v4_packet v n) = AddrsV4 addrs" "length addrs = unat n"
    and "encode C (sample_v4_packet v n) src = Some (msg_v4 (sample_v4_packet v n) addrs c)"
  by (rule sample_addresses [of v n]) (simp add: encode_def encode_v4_layout)

lemma sample_roundtrip:
  assumes "n \<le> 16" and "encode C (sample_v4_packet v n) src = Some b"
  shows "decode C b DUMMY_V4 DUMMY_V4 = Some (Inr (sample_v4_packet v n))"
proof -
  obtain addrs where "addresses (sample_v4_packet v n) = AddrsV4 addrs" "length addrs = unat n"
    by (rule sample_addresses)
  moreover from assms(1) have "unat n \<le> 16" by (simp add: word_le_nat_alt)
  ultimately show ?thesis
    using decode_encode_v4 [of "sample_v4_packet v n" addrs src b] assms(2) by (simp add: DUMMY_V4_def)
qed

lemma test_v2_encode_decode_roundtrip: "v2_encode_decode_roundtrip_various_ip_counts C"
proof -
  have "encoded_then C (sample_v4_packet V2 n) DUMMY_V4 (\<lambda>b. decoded_then C b DUMMY_V4 DUMMY_V4
      (\<lambda>r. r = Inr (sample_v4_packet V2 n)))" if "n \<le> 16" for n
    using sample_roundtrip [OF that] encode_total [of "sample_v4_packet V2 n" DUMMY_V4]
    by (auto simp: encoded_then_def decoded_then_def)
  from this [of 0] this [of 1] this [of 2] this [of 16] show ?thesis
    by (auto simp: v2_encode_decode_roundtrip_various_ip_counts_def encoded_then_def decoded_then_def
        MAX_IP_COUNT_def Let_def split: option.splits)
qed

lemma test_v3_v4_encode_decode_roundtrip: "v3_v4_encode_decode_roundtrip_has_no_auth_trailer C"
proof -
  obtain addrs c where a: "addresses (sample_v4_packet V3 2) = AddrsV4 addrs" "length addrs = unat (2 :: u8)"
    and e: "encode C (sample_v4_packet V3 2) DUMMY_V4 = Some (msg_v4 (sample_v4_packet V3 2) addrs c)"
    by (rule encoded_v4)
  from sample_roundtrip [OF _ e] e a show ?thesis
    by (simp add: v3_v4_encode_decode_roundtrip_has_no_auth_trailer_def encoded_then_def
        decoded_then_def length_msg Let_def)
qed

lemma test_decode_rejects_empty_buffer: "decode_rejects_empty_buffer C"
  by (simp add: decode_rejects_empty_buffer_def decoded_then_def DUMMY_V4_def decode_def
      decode_v4_ref ref_decode_v4_def)

lemma test_decode_rejects_short_buffer: "decode_rejects_buffer_shorter_than_min_length C"
proof -
  obtain addrs c where a: "addresses (sample_v4_packet V2 0) = AddrsV4 addrs" "length addrs = unat (0 :: u8)"
    and e: "encode C (sample_v4_packet V2 0) DUMMY_V4 = Some (msg_v4 (sample_v4_packet V2 0) addrs c)"
    by (rule encoded_v4)
  let ?b = "msg_v4 (sample_v4_packet V2 0) addrs c"
  have "length ?b = 16" using a by (simp add: length_msg)
  moreover from this have "ref_decode_v4 (take 15 ?b) = Inl Malformed"
    using a by (auto simp: ref_decode_v4_def msg_v4_def version_try_from_def Let_def)
  ultimately show ?thesis
    using e by (simp add: decode_rejects_buffer_shorter_than_min_length_def encoded_then_def
        decoded_then_def DUMMY_V4_def decode_def decode_v4_ref)
qed

lemma test_decode_rejects_long_buffer: "decode_rejects_buffer_longer_than_max_length C"
proof -
  obtain addrs c where a: "addresses (sample_v4_packet V2 16) = AddrsV4 addrs" "length addrs = unat (16 :: u8)"
    and e: "encode C (sample_v4_packet V2 16) DUMMY_V4 = Some (msg_v4 (sample_v4_packet V2 16) addrs c)"
    by (rule encoded_v4)
  let ?b = "msg_v4 (sample_v4_packet V2 16) addrs c"
  have "length ?b = 80" using a by (simp add: length_msg)
  then have "ref_decode_v4 (?b @ [0]) = Inl Malformed"
    using a by (auto simp: ref_decode_v4_def version_try_from_def Let_def nth_append)
      (auto simp: msg_v4_def)
  then show ?thesis
    using e by (simp add: decode_rejects_buffer_longer_than_max_length_def encoded_then_def
        decoded_then_def DUMMY_V4_def decode_def decode_v4_ref MAX_IP_COUNT_def)
qed

lemma test_decode_rejects_unsupported_version: "decode_rejects_unsupported_version C"
proof -
  obtain addrs c where "encode C (sample_v4_packet V2 1) DUMMY_V4 = Some (msg_v4 (sample_v4_packet V2 1) addrs c)"
    by (rule encoded_v4)
  then show ?thesis
    by (simp add: decode_rejects_unsupported_version_def encoded_then_def decoded_then_def DUMMY_V4_def
        decode_def decode_v4_ref ref_decode_v4_def msg_v4_def version_try_from_def flip_nibble)
qed

lemma test_decode_rejects_count: "decode_rejects_count_ip_disagreeing_with_length C"
proof -
  obtain addrs c where a: "addresses (sample_v4_packet V2 1) = AddrsV4 addrs" "length addrs = unat (1 :: u8)"
    and e: "encode C (sample_v4_packet V2 1) DUMMY_V4 = Some (msg_v4 (sample_v4_packet V2 1) addrs c)"
    by (rule encoded_v4)
  let ?b = "msg_v4 (sample_v4_packet V2 1) addrs c"
  have "length ?b = 20" using a by (simp add: length_msg)
  then have "ref_decode_v4 (?b[3 := 2]) = Inl Malformed"
    using a by (auto simp: ref_decode_v4_def version_try_from_def Let_def)
      (auto simp: msg_v4_def)
  with e show ?thesis
    by (simp add: decode_rejects_count_ip_disagreeing_with_length_def encoded_then_def
        decoded_then_def DUMMY_V4_def decode_def decode_v4_ref)
qed

lemma test_v3_interval_field_is_clamped: "v3_interval_field_is_clamped_to_12_bits C"
proof -
  let ?p = "(sample_v4_packet V3 1)\<lparr>adver_int_cs := 0xFFFF\<rparr>"
  let ?q = "(sample_v4_packet V3 1)\<lparr>adver_int_cs := 0x0FFF\<rparr>"
  obtain addrs where a: "addresses (sample_v4_packet V3 1) = AddrsV4 addrs" "length addrs = unat (1 :: u8)"
    by (rule sample_addresses)
  have "msg_v4 ?p addrs c = msg_v4 ?q addrs c" for c
    by (simp add: msg_v4_def)
  then have same: "encode C ?p DUMMY_V4 = encode C ?q DUMMY_V4"
    using a by (simp add: encode_def encode_v4_layout)
  obtain b where b: "encode C ?q DUMMY_V4 = Some b" using encode_total by blast
  have "decode C b DUMMY_V4 DUMMY_V4 = Some (Inr ?q)"
    using decode_encode_v4 [of ?q addrs DUMMY_V4 b] a b by (simp add: DUMMY_V4_def)
  with b same show ?thesis
    by (simp add: v3_interval_field_is_clamped_to_12_bits_def encoded_then_def decoded_then_def)
qed

lemma test_v2_over_ipv6: "v2_over_ipv6_is_rejected C"
proof -
  obtain addrs where "addresses (sample_v6_packet 1) = AddrsV6 addrs"
    by (rule sample_addresses_v6)
  then obtain c where "encode C (sample_v6_packet 1) (IpV6 LOCALHOST6) = Some (msg_v6 (sample_v6_packet 1) addrs c)"
    by (simp add: encode_def encode_v6_layout)
  then show ?thesis
    by (simp add: v2_over_ipv6_is_rejected_def encoded_then_def decoded_then_def decode_def
        decode_v6_ref ref_decode_v6_def msg_v6_def flip_nibble)
qed

lemma other_source_refused:
  assumes "decode_v6 C data s d = Some (Inr p)"
    and "internet_checksum (pseudo_v6 s' d (length data) 112 @ data) \<noteq> (0, 0)"
  shows "decode_v6 C data s' d = Some (Inl BadChecksum)"
  using assms by (auto simp: decode_v6_ref ref_decode_v6_def pseudo_v6_def Let_def split: if_splits)

lemma test_v3_v6_roundtrip: "v3_v6_encode_decode_roundtrip_and_checksum_uses_pseudo_header C"
proof -
  let ?src = "ipv6_new 0xfe80 0 0 0 0 0 0 1" and ?wrong = "ipv6_new 0xfe80 0 0 0 0 0 0 2"
  let ?p = "sample_v6_packet 2"
  obtain addrs where a: "addresses ?p = AddrsV6 addrs" "length addrs = unat (2 :: u8)"
    by (rule sample_addresses_v6)
  obtain b where b: "encode C ?p (IpV6 ?src) = Some b" using encode_total by blast
  have d: "decode_v6 C b ?src VRRP_V6_MCAST_ADDR = Some (Inr ?p)"
    using decode_encode_v6 [of ?p addrs ?src b] a b by (simp add: decode_def)
  let ?pre = "\<lambda>s. pseudo_v6 s VRRP_V6_MCAST_ADDR (length b) 112 @ b"
  have "octets6 ?wrong = (octets6 ?src)[15 := 2]" and last: "octets6 ?src ! 15 = 1"
    by (simp_all add: ipv6_new_def be_of_be be16_def)
  then have "?pre ?wrong = (?pre ?src)[15 := 2]" and "?pre ?src ! 15 = 1"
    by (simp_all add: pseudo_v6_def list_update_append nth_append)
  moreover have "internet_checksum (?pre ?src) = (0, 0)"
    using d by (auto simp: decode_v6_iff wire_v6_def)
  ultimately have "internet_checksum (?pre ?wrong) \<noteq> (0, 0)"
    using internet_checksum_update [of 15 "?pre ?src" 2] by simp
  from other_source_refused [OF d this] d b show ?thesis
    by (simp add: v3_v6_encode_decode_roundtrip_and_checksum_uses_pseudo_header_def encoded_then_def
        decoded_then_def decode_def Let_def)
qed

end

section \<open>ARP and neighbour messages\<close>

definition arp_decode_rejects_wrong_length :: "crates \<Rightarrow> bool" where
  "arp_decode_rejects_wrong_length C \<longleftrightarrow>
     arp_decode C (replicate 27 0) = Some None \<and> arp_decode C (replicate 29 0) = Some None"

definition arp_decode_roundtrips_known_fields :: "crates \<Rightarrow> bool" where
  "arp_decode_roundtrips_known_fields C =
     (let pkt = \<lparr>hw_type = 1, proto_type = 0x0800, hw_length = 6, proto_length = 4, operation = 2,
            sender_hw_address = [0x00, 0x00, 0x5e, 0x00, 0x01, 0x33],
            sender_proto_address = [192, 168, 100, 1],
            target_hw_address = [0xaa, 0xbb, 0xcc, 0xdd, 0xee, 0xff],
            target_proto_address = [192, 168, 100, 254]\<rparr>;
          buf = put_u16 C [] (hw_type pkt);
          buf = put_u16 C buf (proto_type pkt);
          buf = put_u8 C buf (hw_length pkt);
          buf = put_u8 C buf (proto_length pkt);
          buf = put_u16 C buf (operation pkt);
          buf = put_slice C buf (sender_hw_address pkt);
          buf = put_slice C buf (sender_proto_address pkt);
          buf = put_slice C buf (target_hw_address pkt);
          buf = put_slice C buf (target_proto_address pkt)
      in arp_decode C buf = Some (Some pkt))"

definition ndp_neighbor_advertisement_roundtrip_checksum :: "crates \<Rightarrow> bool" where
  "ndp_neighbor_advertisement_roundtrip_checksum C =
     (let src = ipv6_new 0xfe80 0 0 0 0 0 0 1; dst = ALL_NODES_V6_MCAST_ADDR;
          na = \<lparr>na_target_address = src, na_target_link_addr = [0x00, 0x00, 0x5e, 0x00, 0x02, 0x33],
                na_override_flag = True\<rparr>
      in case na_encode C na src dst of
           None \<Rightarrow> False
         | Some encoded \<Rightarrow>
             checksum C [octets6 src, octets6 dst, be32 (word_of_nat (length encoded)),
                         [0, 0, 0, ICMPV6_PROTO_NUM], encoded] = (0, 0))"

definition ndp_neighbor_solicitation_decode_extracts_target :: bool where
  "ndp_neighbor_solicitation_decode_extracts_target =
     (let target = ipv6_new 0xfd00 0 0 0 0 0 0 1 in
      ns_decode ([135, 0, 0, 0, 0, 0, 0, 0] @ octets6 target) = Some target)"

context wire_crates
begin

lemma test_arp_decode_length: "arp_decode_rejects_wrong_length C"
  by (simp add: arp_decode_rejects_wrong_length_def arp_decode_closed)

lemma test_arp_decode_roundtrip: "arp_decode_roundtrips_known_fields C"
proof -
  let ?pkt = "\<lparr>hw_type = 1, proto_type = 0x0800, hw_length = 6, proto_length = 4, operation = 2,
            sender_hw_address = [0x00, 0x00, 0x5e, 0x00, 0x01, 0x33],
            sender_proto_address = [192, 168, 100, 1],
            target_hw_address = [0xaa, 0xbb, 0xcc, 0xdd, 0xee, 0xff],
            target_proto_address = [192, 168, 100, 254]\<rparr> :: arp_packet"
  have "arp_sized ?pkt" by (simp add: arp_sized_def)
  from arp_decode_bytes [OF this] show ?thesis
    by (simp add: arp_decode_roundtrips_known_fields_def put_simps arp_bytes_def Let_def)
qed

lemma test_na_checksum: "ndp_neighbor_advertisement_roundtrip_checksum C"
proof -
  let ?na = "\<lparr>na_target_address = ipv6_new 0xfe80 0 0 0 0 0 0 1,
      na_target_link_addr = [0x00, 0x00, 0x5e, 0x00, 0x02, 0x33], na_override_flag = True\<rparr>"
  let ?src = "ipv6_new 0xfe80 0 0 0 0 0 0 1" and ?dst = ALL_NODES_V6_MCAST_ADDR
  obtain b where b: "na_encode C ?na ?src ?dst = Some b" using na_encode_total by blast
  from na_encode_verifies [OF _ b] b show ?thesis
    by (simp add: ndp_neighbor_advertisement_roundtrip_checksum_def checksum pseudo_v6_def
        ICMPV6_PROTO_NUM_def Let_def)
qed

end

lemma test_ns_decode: ndp_neighbor_solicitation_decode_extracts_target
  by (simp add: ndp_neighbor_solicitation_decode_extracts_target_def ns_decode_iff Let_def)

section \<open>Names of the mac-vlans\<close>

definition fnv1a_hash_is_stable_for_known_inputs :: bool where
  "fnv1a_hash_is_stable_for_known_inputs \<longleftrightarrow>
     fnv1a_hash [] = 0x811c9dc5 \<and> fnv1a_hash ''eth0'' = 0x67b19724"

definition fnv1a_hash_differs_for_different_inputs :: bool where
  "fnv1a_hash_differs_for_different_inputs \<longleftrightarrow> fnv1a_hash ''eth0'' \<noteq> fnv1a_hash ''eth1''"

definition mac_vlan_name_is_stable_and_deterministic :: bool where
  "mac_vlan_name_is_stable_and_deterministic =
     (let first = mac_vlan_name ''eth0'' 51 FamV4; second = mac_vlan_name ''eth0'' 51 FamV4
      in first = second \<and> first = ''fover4-51-9724'')"

definition mac_vlan_name_varies_with_vrid_parent_and_family :: bool where
  "mac_vlan_name_varies_with_vrid_parent_and_family \<longleftrightarrow>
     mac_vlan_name ''eth0'' 51 FamV4 \<noteq> mac_vlan_name ''eth0'' 52 FamV4
     \<and> mac_vlan_name ''eth0'' 51 FamV4 \<noteq> mac_vlan_name ''eth1'' 51 FamV4
     \<and> mac_vlan_name ''eth0'' 51 FamV4 \<noteq> mac_vlan_name ''eth0'' 51 FamV6"

definition mac_vlan_name_fits_within_ifnamsiz :: bool where
  "mac_vlan_name_fits_within_ifnamsiz =
     (let v4 = mac_vlan_name ''eth0'' 255 FamV4; v6 = mac_vlan_name ''eth0'' 255 FamV6
      in length v4 \<le> 15 \<and> length v6 \<le> 15)"

definition same_vrid_and_parent_shares_the_v4_name_across_versions :: bool where
  "same_vrid_and_parent_shares_the_v4_name_across_versions =
     (let a = mac_vlan_name ''eth0'' 51 FamV4; b = mac_vlan_name ''eth0'' 51 FamV4 in a = b)"

definition virtual_mac_differs_by_family :: bool where
  "virtual_mac_differs_by_family \<longleftrightarrow>
     virtual_mac FamV4 51 = [0x00, 0x00, 0x5e, 0x00, 0x01, 51]
     \<and> virtual_mac FamV6 51 = [0x00, 0x00, 0x5e, 0x00, 0x02, 51]"

definition netlink_error_with_code :: "int \<Rightarrow> rtnl_error" where
  "netlink_error_with_code code = NetlinkError (if code = 0 then None else Some code)"

definition EPERM :: int where "EPERM = 1"

definition is_no_such_device_true_for_enodev :: bool where
  "is_no_such_device_true_for_enodev \<longleftrightarrow>
     is_no_such_device (netlink_error_with_code (- ENODEV))"

definition is_no_such_device_false_for_other_codes :: bool where
  "is_no_such_device_false_for_other_codes \<longleftrightarrow>
     \<not> is_no_such_device (netlink_error_with_code (- EPERM))"

definition is_no_such_device_false_for_non_netlink_errors :: bool where
  "is_no_such_device_false_for_non_netlink_errors \<longleftrightarrow> \<not> is_no_such_device RequestFailed"

lemma fnv_values: "fnv1a_hash [] = 0x811c9dc5" "fnv1a_hash ''eth0'' = 0x67b19724"
  "fnv1a_hash ''eth1'' = 0x68b198b7"
  by (simp_all add: fnv1a_hash_def)

lemma test_fnv1a: fnv1a_hash_is_stable_for_known_inputs fnv1a_hash_differs_for_different_inputs
  by (simp_all add: fnv1a_hash_is_stable_for_known_inputs_def fnv1a_hash_differs_for_different_inputs_def
      fnv_values)

lemma test_mac_vlan_name_stable:
  mac_vlan_name_is_stable_and_deterministic same_vrid_and_parent_shares_the_v4_name_across_versions
  by (simp_all add: mac_vlan_name_is_stable_and_deterministic_def example_name
      same_vrid_and_parent_shares_the_v4_name_across_versions_def)

lemma test_mac_vlan_name_varies: mac_vlan_name_varies_with_vrid_parent_and_family
  by (simp add: mac_vlan_name_varies_with_vrid_parent_and_family_def mac_vlan_name_cong name_hash_def
      fnv_values)

lemma test_mac_vlan_name_fits: mac_vlan_name_fits_within_ifnamsiz
  using mac_vlan_name_length by (simp add: mac_vlan_name_fits_within_ifnamsiz_def)

lemma test_virtual_mac: virtual_mac_differs_by_family
  by (simp add: virtual_mac_differs_by_family_def)

lemma test_is_no_such_device:
  is_no_such_device_true_for_enodev is_no_such_device_false_for_other_codes
  is_no_such_device_false_for_non_netlink_errors
  by (simp_all add: is_no_such_device_true_for_enodev_def is_no_such_device_false_for_other_codes_def
      is_no_such_device_false_for_non_netlink_errors_def is_no_such_device_def
      netlink_error_with_code_def ENODEV_def EPERM_def)

section \<open>The timers\<close>

text \<open>The tests read the clock again after the setter; here it stands still in between.\<close>

definition set_advert_timer_sets_type_and_duration :: "instant \<Rightarrow> bool" where
  "set_advert_timer_sets_type_and_duration now =
     (case set_advert_timer now (3 / 2) default_machine of
        None \<Rightarrow> False
      | Some fsm \<Rightarrow> t_type (fsm_timer fsm) = AdverTimer \<and> remaining_time (fsm_timer fsm) = 3 / 2
          \<and> (case waiting_for (fsm_timer fsm) of None \<Rightarrow> False | Some w \<Rightarrow> now < w))"

definition set_master_down_timer_sets_type_and_duration :: "instant \<Rightarrow> bool" where
  "set_master_down_timer_sets_type_and_duration now =
     (case set_master_down_timer now (7 / 2) default_machine of
        None \<Rightarrow> False
      | Some fsm \<Rightarrow> t_type (fsm_timer fsm) = MasterDownTimer \<and> remaining_time (fsm_timer fsm) = 7 / 2
          \<and> (case waiting_for (fsm_timer fsm) of None \<Rightarrow> False | Some w \<Rightarrow> now < w))"

definition disable_timer_clears_type_duration_and_deadline :: "instant \<Rightarrow> bool" where
  "disable_timer_clears_type_duration_and_deadline now =
     (case set_advert_timer now 1 default_machine of
        None \<Rightarrow> False
      | Some fsm \<Rightarrow>
          let fsm = disable_timer fsm in
          t_type (fsm_timer fsm) = NullTimer \<and> remaining_time (fsm_timer fsm) = 0
          \<and> waiting_for (fsm_timer fsm) = None)"

definition setting_a_new_timer_overwrites_the_previous_one :: "instant \<Rightarrow> bool" where
  "setting_a_new_timer_overwrites_the_previous_one now =
     (case do { fsm \<leftarrow> set_master_down_timer now 3 default_machine; set_advert_timer now 1 fsm } of
        None \<Rightarrow> False
      | Some fsm \<Rightarrow> t_type (fsm_timer fsm) = AdverTimer \<and> remaining_time (fsm_timer fsm) = 1)"

lemma test_durations:
  "duration_ns (3 / 2) = Some 1500000000" "duration_ns (7 / 2) = Some 3500000000"
  "duration_ns 1 = Some 1000000000" "duration_ns 3 = Some 3000000000"
  using duration_timer_value [of "3 / 2" 384] duration_timer_value [of "7 / 2" 896]
    duration_timer_value [of 1 256] duration_timer_value [of 3 768]
  by (simp_all add: timer_value_def)

lemma test_timers:
  "set_advert_timer_sets_type_and_duration now" "set_master_down_timer_sets_type_and_duration now"
  "disable_timer_clears_type_duration_and_deadline now"
  "setting_a_new_timer_overwrites_the_previous_one now"
  by (simp_all add: set_advert_timer_sets_type_and_duration_def
      set_master_down_timer_sets_type_and_duration_def
      disable_timer_clears_type_duration_and_deadline_def
      setting_a_new_timer_overwrites_the_previous_one_def
      set_advert_timer_def set_master_down_timer_def disable_timer_def test_durations)

section \<open>Validation of configurations\<close>

definition sample_config :: "string \<Rightarrow> u8 \<Rightarrow> vrrp_version \<Rightarrow> config" where
  "sample_config n vid ver =
     \<lparr>cfg_name = n, cfg_vrid = vid, cfg_ip_addresses = [''192.168.100.10/24''],
      cfg_interface_name = ''eth0'', cfg_priority = 100, cfg_advert_interval = 1,
      cfg_preempt_mode = True, cfg_version = ver\<rparr>"

definition test_object :: "u8 option \<Rightarrow> raw_config" where
  "test_object ver =
     \<lparr>raw_name = None, raw_vrid = 51, raw_ip_addresses = [''192.168.100.10/24''],
      raw_interface_name = ''eth0'', raw_priority = None, raw_advert_interval = None,
      raw_preempt_mode = None, raw_version = ver\<rparr>"

definition version_defaults_to_v3_when_omitted :: "string \<Rightarrow> bool" where
  "version_defaults_to_v3_when_omitted drawn =
     (case deserialize_config drawn (test_object None) of
        Inl _ \<Rightarrow> False
      | Inr cfg \<Rightarrow> cfg_version cfg = V3)"

definition version_rejects_values_other_than_2_or_3 :: "string \<Rightarrow> bool" where
  "version_rejects_values_other_than_2_or_3 drawn = isl (deserialize_config drawn (test_object (Some 4)))"

definition same_name_and_vrid_allowed_across_different_versions :: "crates \<Rightarrow> bool" where
  "same_name_and_vrid_allowed_across_different_versions C \<longleftrightarrow>
     validate_configs C [sample_config ''VR_1'' 51 V2, sample_config ''VR_1'' 51 V3] = Inr ()"

definition duplicate_name_same_version_is_a_hard_error :: "crates \<Rightarrow> bool" where
  "duplicate_name_same_version_is_a_hard_error C =
     (case validate_configs C [sample_config ''VR_1'' 51 V3, sample_config ''VR_1'' 52 V3] of
        Inl (DuplicateName _ _) \<Rightarrow> True | _ \<Rightarrow> False)"

definition duplicate_vrid_same_version_is_a_hard_error :: "crates \<Rightarrow> bool" where
  "duplicate_vrid_same_version_is_a_hard_error C =
     (case validate_configs C [sample_config ''VR_1'' 51 V3, sample_config ''VR_2'' 51 V3] of
        Inl (DuplicateVrid _ _) \<Rightarrow> True | _ \<Rightarrow> False)"

definition with_ipv6 :: "config \<Rightarrow> config" where
  "with_ipv6 cfg = cfg\<lparr>cfg_ip_addresses := cfg_ip_addresses cfg @ [''fd00::1/64'']\<rparr>"

definition ipv6_address_on_v2_instance_is_rejected :: "crates \<Rightarrow> bool" where
  "ipv6_address_on_v2_instance_is_rejected C =
     (case validate_configs C [with_ipv6 (sample_config ''VR_1'' 51 V2)] of
        Inl (Ipv6NotSupportedInV2 _ _) \<Rightarrow> True | _ \<Rightarrow> False)"

definition ipv6_address_on_v3_instance_is_allowed :: "crates \<Rightarrow> bool" where
  "ipv6_address_on_v3_instance_is_allowed C \<longleftrightarrow>
     validate_configs C [with_ipv6 (sample_config ''VR_1'' 51 V3)] = Inr ()"

definition advert_interval_over_40s_rejected_for_v3 :: "crates \<Rightarrow> bool" where
  "advert_interval_over_40s_rejected_for_v3 C =
     (case validate_configs C [(sample_config ''VR_1'' 51 V3)\<lparr>cfg_advert_interval := 41\<rparr>] of
        Inl (AdvertIntervalTooLarge _ _) \<Rightarrow> True | _ \<Rightarrow> False)"

definition advert_interval_over_40s_allowed_for_v2 :: "crates \<Rightarrow> bool" where
  "advert_interval_over_40s_allowed_for_v2 C \<longleftrightarrow>
     validate_configs C [(sample_config ''VR_1'' 51 V2)\<lparr>cfg_advert_interval := 200\<rparr>] = Inr ()"

lemma test_versions:
  "version_defaults_to_v3_when_omitted drawn" "version_rejects_values_other_than_2_or_3 drawn"
  by (simp_all add: version_defaults_to_v3_when_omitted_def version_rejects_values_other_than_2_or_3_def
      deserialize_config_def test_object_def default_version_def deserialize_version_def
      version_try_from_def)

lemma test_validation:
  assumes "parse_ipnet C ''192.168.100.10/24'' = Some (NetV4 n)"
    and "parse_ipnet C ''fd00::1/64'' = Some (NetV6 m)"
  shows "same_name_and_vrid_allowed_across_different_versions C"
    "duplicate_name_same_version_is_a_hard_error C" "duplicate_vrid_same_version_is_a_hard_error C"
    "ipv6_address_on_v2_instance_is_rejected C" "ipv6_address_on_v3_instance_is_allowed C"
    "advert_interval_over_40s_rejected_for_v3 C" "advert_interval_over_40s_allowed_for_v2 C"
  using assms
  by (simp_all add: same_name_and_vrid_allowed_across_different_versions_def
      duplicate_name_same_version_is_a_hard_error_def duplicate_vrid_same_version_is_a_hard_error_def
      ipv6_address_on_v2_instance_is_rejected_def ipv6_address_on_v3_instance_is_allowed_def
      advert_interval_over_40s_rejected_for_v3_def advert_interval_over_40s_allowed_for_v2_def
      sample_config_def with_ipv6_def)

end
