(* ===== verification/Peers.thy ===== *)
theory Peers
  imports System
begin

text \<open>
  What one router sends, another one of the same virtual router receives. The bytes are taken
  from the sender's trace: encoding, sending, decoding, the checks and the transition are all
  those of the code (\<open>src/src/router.rs\<close>, \<open>src/src/packet.rs\<close>, \<open>src/src/network.rs\<close>,
  \<open>src/src/pkt/handlers.rs\<close>, \<open>src/src/core_tasks.rs\<close>), including the filter of datagrams that
  come from an address of the receiver. The last property sets the deadlines of two Backups
  against the polling of their timer tasks.
\<close>

section \<open>Advertisements that arrive\<close>

context wire_crates
begin

lemma advert_decodes:
  assumes "length (vr_ipv4_addresses a) \<le> 16"
    and "interval_fits (vr_version a) (adver_int_of a)"
  shows "decode C (sealed_v4 (advert_v4 a) (ipv4_addrs a)) (IpV4 src) dst = Some (Inr (advert_v4 a))"
proof -
  have "encode C (advert_v4 a) (IpV4 src) = Some (sealed_v4 (advert_v4 a) (ipv4_addrs a))"
    by (simp add: encode_def advert_v4_def encode_v4_layout sealed_v4_def)
  then show ?thesis
    using assms by (intro decode_encode_v4 [where addrs = "ipv4_addrs a"])
      (simp_all add: advert_v4_def ipv4_addrs_def)
qed

lemma advert_v6_decodes:
  assumes "length (vr_ipv6_addresses a) \<le> 16" and "vr_version a = V3"
    and "interval_fits (vr_version a) (adver_int_of a)"
  shows "decode C (sealed_v6 (advert_v6 a) src (ipv6_addrs a)) (IpV6 src) (IpV6 VRRP_V6_MCAST_ADDR)
       = Some (Inr (advert_v6 a))"
proof -
  have "encode C (advert_v6 a) (IpV6 src) = Some (sealed_v6 (advert_v6 a) src (ipv6_addrs a))"
    by (simp add: encode_def advert_v6_def encode_v6_layout sealed_v6_def)
  then show ?thesis
    using assms by (intro decode_encode_v6 [where addrs = "ipv6_addrs a"])
      (simp_all add: advert_v6_def ipv6_addrs_def)
qed

lemma process_accepted:
  assumes "router_ok b" and "decode C payload src dst = Some (Inr p)" and "accepts b p ttl"
    and "family_interface b (addresses p) \<noteq> None"
  obtains r mx' tr' where
    "process_vrrp_packet C os payload src dst ttl \<lparr>guarded = b, poisoned = False\<rparr> tr = Some (r, mx', tr')"
    and "\<not> poisoned mx'"
    and "erase (guarded mx') = erase (fsm_step (os_now os tr') (Advert (priority p)) b)"
proof -
  let ?mx = "\<lparr>guarded = b, poisoned = False\<rparr>"
  have t: "timers_ok (guarded ?mx)" using assms(1) by (simp add: router_ok_def)
  obtain r mx' tr' where p: "process_vrrp_packet C os payload src dst ttl ?mx tr = Some (r, mx', tr')"
    using process_total [OF t] by blast
  have np: "\<not> poisoned ?mx" by simp
  have "\<not> poisoned mx'" using process_poisoned [OF p] by simp
  with p process_step [OF t np p assms(2)] assms(3,4) show ?thesis by (intro that) simp_all
qed

end

text \<open>Two configurations of one virtual router: they differ at most in name, priority, preemption
  and parent interface.\<close>

definition same_virtual_router :: "virtual_router \<Rightarrow> virtual_router \<Rightarrow> bool" where
  "same_virtual_router a b \<longleftrightarrow> vr_vrid a = vr_vrid b \<and> vr_version a = vr_version b
     \<and> vr_advert_interval a = vr_advert_interval b
     \<and> vr_ipv4_addresses a = vr_ipv4_addresses b \<and> vr_ipv6_addresses a = vr_ipv6_addresses b"

lemma same_virtual_router_accepts:
  assumes "same_virtual_router a b"
  shows "accepts b (advert_v4 a) 255" "accepts b (advert_v6 a) 255"
  using assms
  by (simp_all add: accepts_def advert_v4_def advert_v6_def same_virtual_router_def adver_int_of_def
      ipv4_addrs_def ipv6_addrs_def)

text \<open>An instance of a validated configuration sends what the wire can carry.\<close>

lemma instance_fits:
  assumes "config_ok C conf" and "instance_of C conf a"
  shows "interval_fits (vr_version a) (adver_int_of a)"
    and "length (vr_ipv4_addresses a) \<le> 16" "length (vr_ipv6_addresses a) \<le> 16"
  using adver_int_fits [of a] config_to_vr_count [of C conf] assms
  by (simp_all add: instance_of_def config_ok_def)

context wire_crates
begin

lemma advert_heard:
  assumes "config_ok C conf" and "instance_of C conf a"
    and "same_virtual_router a b" and "router_ok b"
    and "no_failures os" and "send_advertisement C os a [] = Some tr"
  obtains r mx' tr' where "process_vrrp_packet C os' (hd (payloads tr)) (IpV4 src) (IpV4 dst) 255
        \<lparr>guarded = b, poisoned = False\<rparr> tr0 = Some (r, mx', tr')"
    and "\<not> poisoned mx'"
    and "erase (guarded mx') = erase (fsm_step (os_now os' tr') (Advert (cfg_priority conf)) b)"
proof -
  have "hd (payloads tr) = sealed_v4 (advert_v4 a) (ipv4_addrs a)"
    using payloads_advertisement [OF assms(5,6)] by (simp add: advert_payloads_def)
  with advert_decodes [OF instance_fits(2,1) [OF assms(1,2)]]
  have d: "decode C (hd (payloads tr)) (IpV4 src) (IpV4 dst) = Some (Inr (advert_v4 a))" by simp
  have "family_interface b (addresses (advert_v4 a)) \<noteq> None"
    and "priority (advert_v4 a) = cfg_priority conf"
    using assms(2) by (simp_all add: advert_v4_def instance_of_def)
  with process_accepted [OF assms(4) d same_virtual_router_accepts(1) [OF assms(3)], of os' tr0] that
  show thesis by metis
qed

lemma advert_heard_v6:
  assumes "config_ok C conf" and "instance_of C conf a"
    and "cfg_version conf = V3" and "vr_primary_ip_v6 a = Some s"
    and "same_virtual_router a b" and "router_ok b" and "vr_mac_vlan_interface_v6 b \<noteq> None"
    and "no_failures os" and "send_advertisement C os a [] = Some tr"
  obtains payload4 payload6 r mx' tr' where "payloads tr = [payload4, payload6]"
    and "process_vrrp_packet C os' payload6 (IpV6 s) (IpV6 VRRP_V6_MCAST_ADDR) 255
          \<lparr>guarded = b, poisoned = False\<rparr> tr0 = Some (r, mx', tr')"
    and "\<not> poisoned mx'"
    and "erase (guarded mx') = erase (fsm_step (os_now os' tr') (Advert (cfg_priority conf)) b)"
proof -
  have v: "vr_version a = V3" "vr_mac_vlan_interface_v6 a \<noteq> None" "priority (advert_v6 a) = cfg_priority conf"
    using assms(2,3) by (simp_all add: instance_of_def advert_v6_def)
  let ?payload = "sealed_v6 (advert_v6 a) s (ipv6_addrs a)"
  have sent: "payloads tr = [sealed_v4 (advert_v4 a) (ipv4_addrs a), ?payload]"
    using payloads_advertisement [OF assms(8,9)] v(2) assms(4) by (auto simp: advert_payloads_def)
  have d: "decode C ?payload (IpV6 s) (IpV6 VRRP_V6_MCAST_ADDR) = Some (Inr (advert_v6 a))"
    by (rule advert_v6_decodes [OF instance_fits(3) [OF assms(1,2)] v(1) instance_fits(1) [OF assms(1,2)]])
  have "family_interface b (addresses (advert_v6 a)) \<noteq> None"
    using assms(7) by (simp add: advert_v6_def)
  with process_accepted [OF assms(6) d same_virtual_router_accepts(2) [OF assms(5)], of os' tr0]
    sent v(3) that show thesis by metis
qed

end

text \<open>Two Masters that hear each other: the one of lower priority yields, the other stays.\<close>

lemma lower_priority_yields:
  assumes "erase b' = erase (fsm_step now (Advert p) b)" and "fsm_state (vr_fsm b) \<noteq> Init"
    and "vr_priority b < p"
  shows "fsm_state (vr_fsm b') = Backup
    \<and> waiting_for (fsm_timer (vr_fsm b')) = Some (now
        + down_ticks (vr_version b) (vr_priority b) (vr_advert_interval b) * 3906250)"
proof -
  have "p \<noteq> 0" using assms(3) by auto
  with assms(2,3) have "protocol (vr_priority b) (vr_preempt_mode b) (fsm_state (vr_fsm b)) (Advert p) = (Backup, StartDown)"
    using less_imp_le [OF assms(3)] by (cases "fsm_state (vr_fsm b)") simp_all
  with erase_eq(2,3) [OF assms(1)] show ?thesis
    by (simp add: fsm_step_state fsm_step_timer running_def down_of_def)
qed

lemma higher_priority_stays:
  assumes "erase a' = erase (fsm_step now (Advert p) a)" and "fsm_state (vr_fsm a) = Master"
    and "p < vr_priority a"
  shows "fsm_state (vr_fsm a') = Master"
  using erase_eq(3) [OF assms(1)] assms(2,3) by (auto simp: fsm_step_state dest: leD)

text \<open>The example instance in a given state, as an instance of its configuration, in version 2
  and in version 3.\<close>

lemma example_instance: "instance_of list_crates (example_config V2 100) (example_in s)"
proof -
  have "vr_ipv4_addresses (config_to_vr list_crates (example_config V2 100)) = [example_net]"
    "vr_ipv6_addresses (config_to_vr list_crates (example_config V2 100)) = []"
    by (simp_all add: config_to_vr_addresses example_config_def example_parses)
  then show ?thesis
    by (simp add: instance_of_def example_config_def example_name)
qed

definition example_v3 :: "state \<Rightarrow> virtual_router" where
  "example_v3 st = (example_in st)\<lparr>vr_version := V3,
     vr_mac_vlan_interface_v6 := Some (mac_vlan_name ''eth0'' 51 FamV6), vr_primary_ip_v6 := Some 5\<rparr>"

lemma example_v3_facts:
  "instance_of list_crates (example_config V3 100) (example_v3 st)" "router_ok (example_v3 st)"
proof -
  have "vr_ipv4_addresses (config_to_vr list_crates (example_config V3 100)) = [example_net]"
    "vr_ipv6_addresses (config_to_vr list_crates (example_config V3 100)) = []"
    by (simp_all add: config_to_vr_addresses example_config_def example_parses)
  then show "instance_of list_crates (example_config V3 100) (example_v3 st)"
    by (simp add: instance_of_def example_config_def example_name example_v3_def)
  show "router_ok (example_v3 st)"
    using example_in_ok(1) [of st]
    by (simp add: example_v3_def router_ok_def timers_ok_def down_ticks_def)
qed

text \<open>The datagram that carries an IPv4 advertisement from a router on the same link.\<close>

definition advert_datagram :: "u32 \<Rightarrow> u32 \<Rightarrow> bytes \<Rightarrow> ipv4_packet" where
  "advert_datagram src dst payload =
     \<lparr>ip_source = src, ip_destination = dst, ip_ttl = 255, ip_payload = payload\<rparr>"

lemma handle_advert_v4:
  "handle_incoming_vrrp_v4_pkt C os (advert_datagram src dst payload) mx tr =
     (if is_local_source os (IpV4 src) tr then Some (Inr (), mx, tr)
      else process_vrrp_packet C os payload (IpV4 src) (IpV4 dst) 255 mx tr)"
  by (simp add: handle_incoming_vrrp_v4_pkt_def advert_datagram_def)

text \<open>C6: What the handler of received datagrams makes of the advertisement that an instance of a
  validated configuration sends, in every router of the same virtual router. If the source
  address of the datagram is one that an interface of the receiver has, it is ignored. From any
  other source, and whatever its destination, it is accepted and makes the receiver take the
  protocol's step for the sender's configured priority. The same holds over IPv6 of the second
  packet that a version 3 instance with an IPv6 source address sends, for receivers that have an
  IPv6 mac-vlan; it has to come from that source address.\<close>

theorem advertisement_understood:
  assumes "wire_crates C" and "config_ok C conf" and "instance_of C conf a"
    and "same_virtual_router a b" and "router_ok b"
    and "no_failures os" and "send_advertisement C os a [] = Some tr"
  shows "(if is_local_source os' (IpV4 src) tr0
          then handle_incoming_vrrp_v4_pkt C os' (advert_datagram src dst (hd (payloads tr)))
            \<lparr>guarded = b, poisoned = False\<rparr> tr0 = Some (Inr (), \<lparr>guarded = b, poisoned = False\<rparr>, tr0)
          else \<exists>r mx' tr'. handle_incoming_vrrp_v4_pkt C os' (advert_datagram src dst (hd (payloads tr)))
              \<lparr>guarded = b, poisoned = False\<rparr> tr0 = Some (r, mx', tr')
            \<and> \<not> poisoned mx'
            \<and> erase (guarded mx') = erase (fsm_step (os_now os' tr') (Advert (cfg_priority conf)) b))
    \<and> (cfg_version conf = V3 \<and> vr_primary_ip_v6 a = Some s \<and> vr_mac_vlan_interface_v6 b \<noteq> None \<longrightarrow>
        (\<exists>payload4 payload6. payloads tr = [payload4, payload6]
          \<and> (if is_local_source os' (IpV6 s) tr0
             then handle_incoming_vrrp_v6_pkt C os' payload6 s \<lparr>guarded = b, poisoned = False\<rparr> tr0
               = Some (Inr (), \<lparr>guarded = b, poisoned = False\<rparr>, tr0)
             else \<exists>r mx' tr'. handle_incoming_vrrp_v6_pkt C os' payload6 s
                 \<lparr>guarded = b, poisoned = False\<rparr> tr0 = Some (r, mx', tr')
               \<and> \<not> poisoned mx'
               \<and> erase (guarded mx') = erase (fsm_step (os_now os' tr') (Advert (cfg_priority conf)) b))))"
    (is "?v4 \<and> ?v6")
proof
  obtain r mx' tr' where "process_vrrp_packet C os' (hd (payloads tr)) (IpV4 src) (IpV4 dst) 255
        \<lparr>guarded = b, poisoned = False\<rparr> tr0 = Some (r, mx', tr')"
    "\<not> poisoned mx'" "erase (guarded mx') = erase (fsm_step (os_now os' tr') (Advert (cfg_priority conf)) b)"
    by (rule wire_crates.advert_heard [OF assms])
  then show ?v4 by (simp add: handle_advert_v4)
  show ?v6
  proof
    assume "cfg_version conf = V3 \<and> vr_primary_ip_v6 a = Some s \<and> vr_mac_vlan_interface_v6 b \<noteq> None"
    then have v: "cfg_version conf = V3" "vr_primary_ip_v6 a = Some s" "vr_mac_vlan_interface_v6 b \<noteq> None"
      by simp_all
    obtain payload4 payload6 r mx' tr' where "payloads tr = [payload4, payload6]"
      "process_vrrp_packet C os' payload6 (IpV6 s) (IpV6 VRRP_V6_MCAST_ADDR) 255
          \<lparr>guarded = b, poisoned = False\<rparr> tr0 = Some (r, mx', tr')"
      "\<not> poisoned mx'" "erase (guarded mx') = erase (fsm_step (os_now os' tr') (Advert (cfg_priority conf)) b)"
      by (rule wire_crates.advert_heard_v6 [OF assms(1-3) v(1,2) assms(4,5) v(3) assms(6,7)])
    then show "\<exists>payload4 payload6. payloads tr = [payload4, payload6]
          \<and> (if is_local_source os' (IpV6 s) tr0
             then handle_incoming_vrrp_v6_pkt C os' payload6 s \<lparr>guarded = b, poisoned = False\<rparr> tr0
               = Some (Inr (), \<lparr>guarded = b, poisoned = False\<rparr>, tr0)
             else \<exists>r mx' tr'. handle_incoming_vrrp_v6_pkt C os' payload6 s
                 \<lparr>guarded = b, poisoned = False\<rparr> tr0 = Some (r, mx', tr')
               \<and> \<not> poisoned mx'
               \<and> erase (guarded mx') = erase (fsm_step (os_now os' tr') (Advert (cfg_priority conf)) b))"
      by (intro exI [of _ payload4] exI [of _ payload6]) (simp add: handle_incoming_vrrp_v6_pkt_def)
  qed
qed

lemma example_foreign:
  "\<not> is_local_source (example_os t) (IpV4 1) tr" "\<not> is_local_source (example_os t) (IpV6 5) tr"
  by (simp_all add: is_local_source_def) (simp_all add: example_os_def example_interfaces_def ipv4_new_def of_be32_def nat_of_be_def)

theorem advertisement_understood_witness:
  "\<exists>tr payload4 payload6. send_advertisement list_crates (example_os 0) (example_v3 Master) [] = Some tr
    \<and> payloads tr = [payload4, payload6]
    \<and> (\<exists>r mx' tr'. handle_incoming_vrrp_v4_pkt list_crates (example_os 5) (advert_datagram 1 2 payload4)
          \<lparr>guarded = example_v3 Backup, poisoned = False\<rparr> [] = Some (r, mx', tr')
        \<and> erase (guarded mx') = erase (fsm_step 5 (Advert 100) (example_v3 Backup)))
    \<and> (\<exists>r mx' tr'. handle_incoming_vrrp_v6_pkt list_crates (example_os 5) payload6 5
          \<lparr>guarded = example_v3 Backup, poisoned = False\<rparr> [] = Some (r, mx', tr')
        \<and> erase (guarded mx') = erase (fsm_step 5 (Advert 100) (example_v3 Backup)))"
proof -
  obtain tr where s: "send_advertisement list_crates (example_os 0) (example_v3 Master) [] = Some tr"
    using lc.send_advertisement_total by blast
  have f: "cfg_version (example_config V3 100) = V3" "vr_primary_ip_v6 (example_v3 Master) = Some 5"
    "same_virtual_router (example_v3 Master) (example_v3 Backup)"
    "vr_mac_vlan_interface_v6 (example_v3 Backup) \<noteq> None" "cfg_priority (example_config V3 100) = 100"
    by (simp_all add: example_config_def example_v3_def same_virtual_router_def)
  from advertisement_understood [OF lc.wire_crates_axioms example_config_ok example_v3_facts(1)
      f(3) example_v3_facts(2) example_os_no_failures s, of "example_os 5" 1 "[]" 2 5] f s
  show ?thesis by (auto simp: example_foreign)
qed

text \<open>C9: Silence is tolerated for exactly the master-down interval. Take a Backup that has
  accepted, at time t, an advertisement with a priority that is at least its own and not 0, and
  whose IPv4 mac-vlan is still there with a MAC address. If it hears nothing more, it ignores
  every tick up to t plus three advertisement intervals plus its skew time, and the first tick
  after that makes it Master.\<close>

theorem failover_timing:
  assumes "wire_crates C" and "router_ok b" and "fsm_state (vr_fsm b) = Backup"
    and "decode C payload src dst = Some (Inr p)" and "accepts b p ttl"
    and "family_interface b (addresses p) \<noteq> None"
    and "vr_priority b \<le> priority p" and "priority p \<noteq> 0"
    and "process_vrrp_packet C os payload src dst ttl \<lparr>guarded = b, poisoned = False\<rparr> tr = Some (r, mx, tr')"
    and "get_interface os2 (vr_mac_vlan_interface_v4 b) [] = Inr i" and "if_mac i \<noteq> None"
  shows "if os_now os2 [] \<le> os_now os tr'
            + down_ticks (vr_version b) (vr_priority b) (vr_advert_interval b) * 3906250
         then timer_tick C os2 mx [] = Some (None, mx, [])
         else \<exists>mx' tr2. timer_tick C os2 mx [] = Some (None, mx', tr2)
                \<and> fsm_state (vr_fsm (guarded mx')) = Master"
proof -
  let ?t = "os_now os tr' + down_of b * 3906250"
  from wire_crates.process_accepted [OF assms(1,2,4,5,6), of os tr] assms(9)
  have np: "\<not> poisoned mx"
    and e: "erase (guarded mx) = erase (fsm_step (os_now os tr') (Advert (priority p)) b)"
    by auto
  note eq = erase_eq [OF e]
  have ok: "router_ok (guarded mx)"
    using router_ok_step [OF assms(2)] router_ok_erase [OF e] by simp
  have s: "fsm_state (vr_fsm (guarded mx)) = Backup"
    and w: "waiting_for (fsm_timer (vr_fsm (guarded mx))) = Some ?t"
    using eq(2,3) assms(3,7,8) by (simp_all add: fsm_step_state fsm_step_timer running_def)
  have iface: "vr_mac_vlan_interface_v4 (guarded mx) = vr_mac_vlan_interface_v4 b"
    using same_config_fields [OF erase_same_config [OF e]] by simp
  show ?thesis
  proof (cases "os_now os2 [] \<le> ?t")
    case True
    with timer_tick_idle [OF np w True, of C] show ?thesis by (simp add: down_of_def)
  next
    case False
    then have late: "?t < os_now os2 []" by simp
    from wire_crates.tick_takes_over [OF assms(1) ok np s w late] assms(10,11) iface
    obtain mx' tr2 where "timer_tick C os2 mx [] = Some (None, mx', tr2)"
      "fsm_state (vr_fsm (guarded mx')) = Master" by metis
    with False show ?thesis by (simp add: down_of_def)
  qed
qed

theorem failover_timing_witness:
  "\<exists>b r mx tr'. process_vrrp_packet list_crates (example_os 0) b (IpV4 1) (IpV4 2) 255
       \<lparr>guarded = example_in Backup, poisoned = False\<rparr> [] = Some (r, mx, tr')
     \<and> timer_tick list_crates (example_os (3 * 10 ^ 9)) mx [] = Some (None, mx, [])
     \<and> (\<exists>mx' tr2. timer_tick list_crates (example_os (4 * 10 ^ 9)) mx [] = Some (None, mx', tr2)
          \<and> fsm_state (vr_fsm (guarded mx')) = Master)"
proof -
  obtain b where b: "\<And>s d. decode list_crates b (IpV4 s) d = Some (Inr (example_packet 200))"
    using example_decodes by blast
  obtain r mx tr' where p: "process_vrrp_packet list_crates (example_os 0) b (IpV4 1) (IpV4 2) 255
    \<lparr>guarded = example_in Backup, poisoned = False\<rparr> [] = Some (r, mx, tr')"
    using example_process by blast
  have f: "family_interface (example_in Backup) (addresses (example_packet 200)) \<noteq> None"
    "vr_priority (example_in Backup) \<le> priority (example_packet 200)" "priority (example_packet 200) \<noteq> 0"
    by (simp_all add: example_packet_def)
  have i: "get_interface (example_os t) (vr_mac_vlan_interface_v4 (example_in Backup)) [] =
      Inr \<lparr>if_name = ''fover4-51-9724'', if_mac = Some example_mac, if_ips = []\<rparr>" for t by simp
  have "if os_now (example_os t) [] \<le> os_now (example_os 0) tr' +
        down_ticks (vr_version (example_in Backup)) (vr_priority (example_in Backup))
          (vr_advert_interval (example_in Backup)) * 3906250
      then timer_tick list_crates (example_os t) mx [] = Some (None, mx, [])
      else \<exists>mx' tr2. timer_tick list_crates (example_os t) mx [] = Some (None, mx', tr2)
        \<and> fsm_state (vr_fsm (guarded mx')) = Master" for t
    by (rule failover_timing [OF lc.wire_crates_axioms example_in_ok(1) _ b example_accepted f p i]) simp_all
  from this [of "3 * 10 ^ 9"] this [of "4 * 10 ^ 9"]
  have "timer_tick list_crates (example_os (3 * 10 ^ 9)) mx [] = Some (None, mx, [])"
    "\<exists>mx' tr2. timer_tick list_crates (example_os (4 * 10 ^ 9)) mx [] = Some (None, mx', tr2)
       \<and> fsm_state (vr_fsm (guarded mx')) = Master"
    by (simp_all add: down_ticks_def)
  with p show ?thesis by blast
qed

text \<open>C7: When an instance of higher priority advertises, every other running router of the
  virtual router that receives the datagram is Backup afterwards, with its timer restarted for
  its whole master-down interval; and if the advertiser was Master, the advertisement of such a
  lower-priority Master that crosses its own leaves it Master. So two Masters of different
  priority that hear each other once leave one: the one of higher priority. They do not hear
  each other through the filter of local sources: a datagram whose source is an address of one
  of the receiver's interfaces changes nothing, so that a Master which holds, as a virtual
  address, the address its peer sends from stays Master next to it.\<close>

theorem higher_priority_wins:
  assumes "wire_crates C" and "config_ok C conf" and "instance_of C conf a"
    and "same_virtual_router a b" and "router_ok b" and "fsm_state (vr_fsm b) \<noteq> Init"
    and "vr_priority b < cfg_priority conf"
    and "no_failures os" and "send_advertisement C os a [] = Some tr"
    and "handle_incoming_vrrp_v4_pkt C os' (advert_datagram src dst (hd (payloads tr)))
        \<lparr>guarded = b, poisoned = False\<rparr> tr0 = Some (r, mx', tr')"
  shows "(if is_local_source os' (IpV4 src) tr0 then mx' = \<lparr>guarded = b, poisoned = False\<rparr>
      else fsm_state (vr_fsm (guarded mx')) = Backup
        \<and> waiting_for (fsm_timer (vr_fsm (guarded mx'))) = Some (os_now os' tr'
            + down_ticks (vr_version b) (vr_priority b) (vr_advert_interval b) * 3906250))
    \<and> (config_ok C conf_b \<and> instance_of C conf_b b \<and> router_ok a \<and> fsm_state (vr_fsm a) = Master
        \<and> no_failures os_b \<and> send_advertisement C os_b b [] = Some tr_b \<longrightarrow>
        (\<exists>ra mxa tra. handle_incoming_vrrp_v4_pkt C os_a (advert_datagram src_b dst (hd (payloads tr_b)))
             \<lparr>guarded = a, poisoned = False\<rparr> tr0 = Some (ra, mxa, tra)
           \<and> \<not> poisoned mxa \<and> fsm_state (vr_fsm (guarded mxa)) = Master))"
proof (intro conjI impI)
  show "if is_local_source os' (IpV4 src) tr0 then mx' = \<lparr>guarded = b, poisoned = False\<rparr>
      else fsm_state (vr_fsm (guarded mx')) = Backup
        \<and> waiting_for (fsm_timer (vr_fsm (guarded mx'))) = Some (os_now os' tr'
            + down_ticks (vr_version b) (vr_priority b) (vr_advert_interval b) * 3906250)"
  proof (cases "is_local_source os' (IpV4 src) tr0")
    case True
    with assms(10) show ?thesis by (simp add: handle_advert_v4)
  next
    case False
    with assms(10) have p: "process_vrrp_packet C os' (hd (payloads tr)) (IpV4 src) (IpV4 dst) 255
        \<lparr>guarded = b, poisoned = False\<rparr> tr0 = Some (r, mx', tr')"
      by (simp add: handle_advert_v4)
    have "erase (guarded mx') = erase (fsm_step (os_now os' tr') (Advert (cfg_priority conf)) b)"
      using wire_crates.advert_heard [OF assms(1-5,8,9)] p by (metis option.inject prod.inject)
    from lower_priority_yields [OF this assms(6,7)] False show ?thesis by simp
  qed
next
  assume b: "config_ok C conf_b \<and> instance_of C conf_b b \<and> router_ok a \<and> fsm_state (vr_fsm a) = Master
        \<and> no_failures os_b \<and> send_advertisement C os_b b [] = Some tr_b"
  then have yx: "same_virtual_router b a" and p: "cfg_priority conf_b < vr_priority a"
    using assms(3,4,7) by (auto simp: same_virtual_router_def instance_of_def)
  from wire_crates.advert_heard [OF assms(1) _ _ yx, of conf_b os_b tr_b os_a src_b dst tr0] b
  obtain ra mxa tra where h: "process_vrrp_packet C os_a (hd (payloads tr_b)) (IpV4 src_b) (IpV4 dst) 255
      \<lparr>guarded = a, poisoned = False\<rparr> tr0 = Some (ra, mxa, tra)" "\<not> poisoned mxa"
    "erase (guarded mxa) = erase (fsm_step (os_now os_a tra) (Advert (cfg_priority conf_b)) a)"
    by metis
  from higher_priority_stays [OF h(3)] b p have m: "fsm_state (vr_fsm (guarded mxa)) = Master" by blast
  show "\<exists>ra mxa tra. handle_incoming_vrrp_v4_pkt C os_a (advert_datagram src_b dst (hd (payloads tr_b)))
             \<lparr>guarded = a, poisoned = False\<rparr> tr0 = Some (ra, mxa, tra)
           \<and> \<not> poisoned mxa \<and> fsm_state (vr_fsm (guarded mxa)) = Master"
    using h(1,2) m b by (simp add: handle_advert_v4)
qed

text \<open>The example instance with priority 50.\<close>

definition example_low :: "state \<Rightarrow> virtual_router" where
  "example_low st = (example_in st)\<lparr>vr_priority := 50, vr_skew_time := 206 / 256,
     vr_master_down_interval := 3 + 206 / 256\<rparr>"

lemma example_low_facts:
  "instance_of list_crates (example_config V2 50) (example_low st)" "router_ok (example_low st)"
  "same_virtual_router (example_in s) (example_low st)" "vr_priority (example_low st) = 50"
  "fsm_state (vr_fsm (example_low st)) = st"
proof -
  have "vr_ipv4_addresses (config_to_vr list_crates (example_config V2 50)) = [example_net]"
    "vr_ipv6_addresses (config_to_vr list_crates (example_config V2 50)) = []"
    by (simp_all add: config_to_vr_addresses example_config_def example_parses)
  then show "instance_of list_crates (example_config V2 50) (example_low st)"
    by (simp add: instance_of_def example_config_def example_name example_low_def)
  show "router_ok (example_low st)"
    using example_in_ok(1) [of st]
    by (simp add: example_low_def router_ok_def timers_ok_def timer_value_def down_ticks_def)
qed (simp_all add: example_low_def same_virtual_router_def)

theorem higher_priority_wins_witness:
  "\<exists>tr tr_b r mx' tr' ra mxa tra.
     send_advertisement list_crates (example_os 0) (example_in Master) [] = Some tr
    \<and> handle_incoming_vrrp_v4_pkt list_crates (example_os 5) (advert_datagram 1 2 (hd (payloads tr)))
        \<lparr>guarded = example_low Master, poisoned = False\<rparr> [] = Some (r, mx', tr')
    \<and> fsm_state (vr_fsm (guarded mx')) = Backup
    \<and> send_advertisement list_crates (example_os 0) (example_low Master) [] = Some tr_b
    \<and> handle_incoming_vrrp_v4_pkt list_crates (example_os 5) (advert_datagram 1 2 (hd (payloads tr_b)))
        \<lparr>guarded = example_in Master, poisoned = False\<rparr> [] = Some (ra, mxa, tra)
    \<and> fsm_state (vr_fsm (guarded mxa)) = Master"
proof -
  obtain tr where s: "send_advertisement list_crates (example_os 0) (example_in Master) [] = Some tr"
    using lc.send_advertisement_total by blast
  obtain tr_b where sb: "send_advertisement list_crates (example_os 0) (example_low Master) [] = Some tr_b"
    using lc.send_advertisement_total by blast
  have "timers_ok (guarded \<lparr>guarded = example_low Master, poisoned = False\<rparr>)"
    using example_low_facts(2) [of Master] by (simp add: router_ok_def)
  from lc.process_total [OF this, of "example_os 5" "hd (payloads tr)" "IpV4 1" "IpV4 2" 255 "[]"]
  obtain r mx' tr' where p: "handle_incoming_vrrp_v4_pkt list_crates (example_os 5)
      (advert_datagram 1 2 (hd (payloads tr))) \<lparr>guarded = example_low Master, poisoned = False\<rparr> []
      = Some (r, mx', tr')"
    by (auto simp: handle_advert_v4 example_foreign)
  have f: "fsm_state (vr_fsm (example_low Master)) \<noteq> Init"
    "vr_priority (example_low Master) < cfg_priority (example_config V2 100)"
    by (simp_all add: example_low_facts example_config_def)
  note wins = higher_priority_wins [OF lc.wire_crates_axioms example_config_ok example_instance
      example_low_facts(3,2) f example_os_no_failures s p]
  have "fsm_state (vr_fsm (guarded mx')) = Backup"
    using wins [THEN conjunct1] by (simp only: example_foreign if_False)
  moreover obtain ra mxa tra where
    "handle_incoming_vrrp_v4_pkt list_crates (example_os 5) (advert_datagram 1 2 (hd (payloads tr_b)))
        \<lparr>guarded = example_in Master, poisoned = False\<rparr> [] = Some (ra, mxa, tra)"
    "fsm_state (vr_fsm (guarded mxa)) = Master"
    using wins [THEN conjunct2, of "example_config V2 50" "example_os 0" tr_b "example_os 5" 1]
      example_config_ok example_low_facts(1) [of Master] example_in_ok(1) [of Master]
      example_os_no_failures sb by auto
  ultimately show ?thesis using s sb p by blast
qed

text \<open>C28: Priority against polling. Two running Backups of one virtual router have started their
  master-down timers at the same instant, as by an advertisement both heard. The one of higher
  priority has the earlier deadline, by the difference of the priorities in 1/256 seconds, times
  the advertisement interval in version 3. A tick of its timer task between the two deadlines
  makes it Master if its mac-vlan is there with a MAC address, while a tick of the other one up
  to the later deadline does nothing. But the timers are polled, once a second and with a phase
  of their own: the tick at which the one of higher priority finds its deadline passed comes
  before that of the other one for all phases exactly if the deadlines are at least a second
  apart. In version 2 they never are, so there the one of lower priority can be as early or
  earlier, whatever the priorities.\<close>

theorem priority_decides:
  assumes "wire_crates C" and "router_ok (guarded mxa)" and "router_ok (guarded mxb)"
    and "\<not> poisoned mxa" and "\<not> poisoned mxb"
    and "fsm_state (vr_fsm (guarded mxa)) = Backup" and "fsm_state (vr_fsm (guarded mxb)) = Backup"
    and "same_virtual_router (guarded mxa) (guarded mxb)"
    and "vr_priority (guarded mxb) < vr_priority (guarded mxa)" and "0 < vr_advert_interval (guarded mxb)"
    and "wa = t + down_of (guarded mxa) * 3906250" and "wb = t + down_of (guarded mxb) * 3906250"
    and "waiting_for (fsm_timer (vr_fsm (guarded mxa))) = Some wa"
    and "waiting_for (fsm_timer (vr_fsm (guarded mxb))) = Some wb"
  shows "wb = wa + (unat (vr_priority (guarded mxa)) - unat (vr_priority (guarded mxb)))
          * (if vr_version (guarded mxb) = V3 then unat (vr_advert_interval (guarded mxb)) else 1) * 3906250
    \<and> wa < wb
    \<and> (\<forall>os i. wa < os_now os [] \<and> os_now os [] \<le> wb
          \<and> get_interface os (vr_mac_vlan_interface_v4 (guarded mxa)) [] = Inr i \<and> if_mac i \<noteq> None \<longrightarrow>
        (\<exists>mx' tr'. timer_tick C os mxa [] = Some (None, mx', tr') \<and> fsm_state (vr_fsm (guarded mx')) = Master))
    \<and> (\<forall>os. os_now os [] \<le> wb \<longrightarrow> timer_tick C os mxb [] = Some (None, mxb, []))
    \<and> ((\<forall>start_a start_b. start_a \<le> wa \<and> start_b \<le> wb \<longrightarrow>
          deadline_tick start_a wa < deadline_tick start_b wb) \<longleftrightarrow> wa + 1000000000 \<le> wb)
    \<and> (vr_version (guarded mxb) = V2 \<longrightarrow> wb < wa + 1000000000)"
proof -
  let ?a = "guarded mxa" and ?b = "guarded mxb"
  define i where "i = unat (vr_advert_interval ?b)"
  define d where "d = unat (vr_priority ?a) - unat (vr_priority ?b)"
  define k where "k = (if vr_version ?b = V3 then i else 1)"
  have pq: "unat (vr_priority ?b) < unat (vr_priority ?a)" "unat (vr_priority ?a) < 256"
    using assms(9) unat_lt_256 by (simp_all add: word_less_nat_alt)
  then have d: "256 - unat (vr_priority ?b) = (256 - unat (vr_priority ?a)) + d" "0 < d" "d < 256"
    by (simp_all add: d_def)
  have i: "0 < i" using assms(10) by (simp add: i_def word_less_nat_alt)
  have "skew_ticks (vr_version ?b) (vr_priority ?b) (vr_advert_interval ?b)
      = skew_ticks (vr_version ?b) (vr_priority ?a) (vr_advert_interval ?b) + d * k"
    using d(1) by (cases "vr_version ?b") (simp_all add: k_def i_def add_mult_distrib)
  then have down: "down_of ?b = down_of ?a + d * k"
    using assms(8) by (simp add: down_of_def down_ticks_def same_virtual_router_def)
  have wb: "wb = wa + d * k * 3906250" using assms(11,12) down by simp
  have late: "poll_period \<le> wb"
  proof -
    have "256 * 3906250 \<le> 768 * i * 3906250" using i by simp
    also have "\<dots> \<le> down_of ?b * 3906250" by (simp add: down_of_def down_ticks_def i_def)
    also have "\<dots> \<le> wb" using assms(12) by simp
    finally show ?thesis by (simp add: poll_period_def)
  qed
  have "0 < d * k" using d(2) i by (simp add: k_def)
  then have less: "wa < wb" using wb by simp
  have v2: "wb < wa + 1000000000" if "vr_version ?b = V2"
    using wb d(3) that by (simp add: k_def)
  have phases: "(\<forall>start_a start_b. start_a \<le> wa \<and> start_b \<le> wb \<longrightarrow>
          deadline_tick start_a wa < deadline_tick start_b wb) \<longleftrightarrow> wa + 1000000000 \<le> wb"
  proof
    assume all: "\<forall>start_a start_b. start_a \<le> wa \<and> start_b \<le> wb \<longrightarrow>
        deadline_tick start_a wa < deadline_tick start_b wb"
    have "deadline_tick (Suc wb - poll_period) wb = Suc wb"
      using late by (simp add: deadline_tick_def tick_time_def poll_period_def)
    moreover have "Suc wb - poll_period \<le> wb" using late poll_period_pos by simp
    ultimately have "deadline_tick wa wa < Suc wb" using all [rule_format, of wa "Suc wb - poll_period"] by simp
    then show "wa + 1000000000 \<le> wb" by (simp add: poll_period_def)
  next
    assume far: "wa + 1000000000 \<le> wb"
    show "\<forall>start_a start_b. start_a \<le> wa \<and> start_b \<le> wb \<longrightarrow>
        deadline_tick start_a wa < deadline_tick start_b wb"
    proof (intro allI impI)
      fix start_a start_b :: nat
      assume "start_a \<le> wa \<and> start_b \<le> wb"
      then have "deadline_tick start_a wa \<le> wa + poll_period" using deadline_tick_bound by simp
      also have "\<dots> \<le> wb" using far by (simp add: poll_period_def)
      also have "wb < deadline_tick start_b wb" by (rule deadline_tick_first(2))
      finally show "deadline_tick start_a wa < deadline_tick start_b wb" .
    qed
  qed
  have takes: "\<exists>mx' tr'. timer_tick C os mxa [] = Some (None, mx', tr') \<and> fsm_state (vr_fsm (guarded mx')) = Master"
    if "wa < os_now os []" "get_interface os (vr_mac_vlan_interface_v4 ?a) [] = Inr j" "if_mac j \<noteq> None" for os j
    using wire_crates.tick_takes_over [OF assms(1,2,4,6,13) that] by metis
  have idle: "timer_tick C os mxb [] = Some (None, mxb, [])" if "os_now os [] \<le> wb" for os
    using timer_tick_idle [OF assms(5,14) that] .
  show ?thesis
    using wb less takes idle phases v2 unfolding d_def k_def i_def by blast
qed

text \<open>The example instances of priority 100 and 50, both started at time 0.\<close>

definition example_slow :: virtual_router where
  "example_slow = (example_low Backup)\<lparr>vr_fsm := \<lparr>fsm_timer =
     running MasterDownTimer 0 (down_of (example_low Backup)), fsm_state = Backup, fsm_event = Startup\<rparr>\<rparr>"

lemma example_slow_facts:
  "router_ok example_slow" "fsm_state (vr_fsm example_slow) = Backup" "vr_priority example_slow = 50"
  "vr_version example_slow = V2" "vr_advert_interval example_slow = 1"
  "same_virtual_router (example_in s) example_slow" "down_of example_slow = 974"
  "waiting_for (fsm_timer (vr_fsm example_slow)) = Some (0 + down_of example_slow * 3906250)"
proof -
  show "router_ok example_slow"
    using example_low_facts(2) [of Backup]
    by (simp add: example_slow_def router_ok_def timers_ok_def machine_ok_def running_def)
qed (simp_all add: example_slow_def example_low_def same_virtual_router_def down_of_def down_ticks_def running_def)

lemma example_fast_facts:
  "down_of (example_in Backup) = 924"
  "waiting_for (fsm_timer (vr_fsm (example_in Backup))) = Some (0 + down_of (example_in Backup) * 3906250)"
  by (simp_all add: down_of_def down_ticks_def) (simp add: example_in_def running_def down_of_def down_ticks_def)

theorem priority_decides_witness:
  "timer_tick list_crates (example_os 3700000000) \<lparr>guarded = example_slow, poisoned = False\<rparr> []
      = Some (None, \<lparr>guarded = example_slow, poisoned = False\<rparr>, [])
   \<and> (\<exists>mx' tr'. timer_tick list_crates (example_os 3700000000)
        \<lparr>guarded = example_in Backup, poisoned = False\<rparr> [] = Some (None, mx', tr')
      \<and> fsm_state (vr_fsm (guarded mx')) = Master)"
proof -
  let ?a = "\<lparr>guarded = example_in Backup, poisoned = False\<rparr>"
    and ?b = "\<lparr>guarded = example_slow, poisoned = False\<rparr>"
  have f: "router_ok (guarded ?a)" "router_ok (guarded ?b)" "\<not> poisoned ?a" "\<not> poisoned ?b"
    "fsm_state (vr_fsm (guarded ?a)) = Backup" "fsm_state (vr_fsm (guarded ?b)) = Backup"
    "same_virtual_router (guarded ?a) (guarded ?b)" "vr_priority (guarded ?b) < vr_priority (guarded ?a)"
    "0 < vr_advert_interval (guarded ?b)"
    "waiting_for (fsm_timer (vr_fsm (guarded ?a))) = Some (0 + down_of (guarded ?a) * 3906250)"
    "waiting_for (fsm_timer (vr_fsm (guarded ?b))) = Some (0 + down_of (guarded ?b) * 3906250)"
    using example_slow_facts example_fast_facts by simp_all
  have i: "get_interface (example_os 3700000000) (vr_mac_vlan_interface_v4 (guarded ?a)) [] =
      Inr \<lparr>if_name = ''fover4-51-9724'', if_mac = Some example_mac, if_ips = []\<rparr>" by simp
  have n: "0 + down_of (guarded ?a) * 3906250 < os_now (example_os 3700000000) []"
    "os_now (example_os 3700000000) [] \<le> 0 + down_of (guarded ?b) * 3906250"
    by (simp_all add: example_slow_facts(7) example_fast_facts(1))
  note p = priority_decides [OF lc.wire_crates_axioms f(1-9) refl refl f(10,11)]
  have "timer_tick list_crates (example_os 3700000000) ?b [] = Some (None, ?b, [])"
    using p n(2) by blast
  moreover have "\<exists>mx' tr'. timer_tick list_crates (example_os 3700000000) ?a [] = Some (None, mx', tr')
      \<and> fsm_state (vr_fsm (guarded mx')) = Master"
    using p [THEN conjunct2, THEN conjunct2, THEN conjunct1, rule_format] n i by (metis network_interface.select_convs(2) option.distinct(1))
  ultimately show ?thesis by blast
qed

end
