(* ===== verification/Spec2Isabelle.thy ===== *)
theory Spec2Isabelle
  imports Addresses Run Messages Unit_Tests Peers
begin

text \<open>
  A model of \<open>failover\<close>, an implementation of the Virtual Router Redundancy Protocol (VRRP,
  versions 2 and 3) in Rust. One process runs one instance per configured virtual router. An
  instance owns a mac-vlan interface for each address family, keeps a state machine (Init,
  Backup, Master) behind a mutex, and runs up to five tasks that lock it: they listen for VRRP
  over IPv4 and IPv6, for ARP requests and Neighbor Solicitations, and for the timers.

  \<^bold>\<open>How the parts interact.\<close> \<open>main\<close> loads and validates the configurations and starts \<open>run\<close> for
  each. \<open>run\<close> creates the mac-vlans, raises Startup through the observer and spawns the tasks. A
  listening task receives a packet and passes it to a handler; the VRRP handler decodes it,
  checks it and changes the state machine. The timer task looks at the deadline of the state
  machine: it sends the Master's advertisement, or raises MasterDown. The observer carries out
  an event: it sets the state and the timer, sends the announcements of the router and assigns
  or removes the virtual addresses. A stop signal raises Shutdown.

  \<^bold>\<open>Theories\<close>, with the files under \<open>src/src\<close> they model:
  \<^item> \<open>Prelude\<close>: machine integers, bytes, big-endian conversion; generic lemmas.
  \<^item> \<open>Types\<close> (\<open>lib.rs\<close>, \<open>error.rs\<close>): versions, address lists, the errors as datatypes.
  \<^item> \<open>Messages\<close> (\<open>error.rs\<close>): the texts of the errors and the lines logged with them.
  \<^item> \<open>Crates\<close>: the third-party crates as a record of parameters (\<open>bytes\<close>,
    \<open>internet_checksum\<close>, \<open>ipnet\<close>, \<open>pnet\<close>'s ARP parser), their laws as the locales
    \<open>wire_crates\<close> and \<open>ip_text\<close>, and the instance \<open>list_crates\<close> that satisfies them.
  \<^item> \<open>Packet\<close> (\<open>packet.rs\<close>): the VRRP message, its encoders, decoders and checksums.
  \<^item> \<open>Neighbor\<close> (\<open>packet.rs\<close>): the ARP frame with its layout in memory, the Neighbor
    Advertisement and the Neighbor Solicitation.
  \<^item> \<open>Machine\<close> (\<open>state_machine.rs\<close>): state, timer and events; single-precision intervals.
  \<^item> \<open>Os\<close>: the operating system as a parameter: requests, traces of requests, answers.
  \<^item> \<open>Network\<close> (\<open>network.rs\<close>): the senders and the listeners.
  \<^item> \<open>Router\<close> (\<open>router.rs\<close>): the virtual router, its intervals and its messages.
  \<^item> \<open>Protocol\<close>: the abstract state machine and what it means to implement it.
  \<^item> \<open>Links\<close> (\<open>general.rs\<close>): interfaces, virtual addresses, creation and removal of mac-vlans.
  \<^item> \<open>Observer\<close> (\<open>observer.rs\<close>): what each event does.
  \<^item> \<open>Handlers\<close> (\<open>pkt/handlers.rs\<close>): ARP, neighbour and VRRP packets.
  \<^item> \<open>Tasks\<close> (\<open>core_tasks.rs\<close>): one turn of each task, and the instants at which the timer task is
    woken when nothing delays it (\<open>tick_time\<close>).
  \<^item> \<open>Config\<close> (\<open>config.rs\<close>, the serialisation in \<open>lib.rs\<close>, \<open>config_to_vr\<close> of \<open>general.rs\<close>):
    configuration objects with their defaults, loading, validation, conversion to routers.
  \<^item> \<open>System\<close> (\<open>lib.rs\<close>, \<open>bin/failover.rs\<close>): \<open>run\<close> as a step relation, and \<open>main\<close>. The state
    holds the mutex, the live tasks and \<open>sys_log\<close>, all requests made since the start.
  \<^item> \<open>Run\<close> (\<open>lib.rs\<close>): \<open>run\<close> from its first line to its last for a given schedule of the tasks, a
    given answer to the registration of the SIGTERM handler and a signal that has come or not: it
    waits in its \<open>select!\<close>, has returned, or has panicked.
  \<^item> \<open>Addresses\<close>: the addresses that a log of requests assigns (\<open>replay\<close>), and runs in which,
    from the first event on, no request is refused and links are found as they are (\<open>calm_run\<close>).
  \<^item> \<open>Unit_Tests\<close>: the unit tests of the repository, each a \<open>bool\<close> that is shown to be true.
  \<^item> \<open>Peers\<close>: two routers that exchange packets.
  \<^item> \<open>Spec2Isabelle\<close>: any number of routers of one virtual router on a link.

  \<^bold>\<open>Conventions.\<close> Structs are records (with a prefix where field names clash), enums are
  datatypes, integers are words of their width. A \<open>Result\<close> is a sum. A function that can panic
  returns an option and \<open>None\<close> is the panic; what the one panic that can occur in a turn has
  requested before it is \<open>panic_requests\<close>, which the log of the system keeps. A function that talks to the system takes an \<open>os\<close> and a trace, and returns the trace with its
  requests appended. The answers of the \<open>os\<close> may depend on the whole trace, and every turn of a
  task is given its own \<open>os\<close>, so nothing is assumed about failures or about changes of the
  interfaces. The mutex is a \<open>router_mutex\<close>: a panic while it is held sets \<open>poisoned\<close>, and since
  no task waits while holding it, the turns of the tasks interleave as atomic steps. Intervals
  are \<open>f32\<close>: rationals, rounded to 24 significant bits after every operation as IEEE 754 asks;
  they are shown to be multiples of 1/256 of a second below 1024, so that no rounding error
  and no panic of \<open>Duration\<close> occurs, and deadlines are exact in nanoseconds.

  \<^bold>\<open>Loops.\<close> All of them are structural recursion: over addresses, attributes, configurations, and
  for the \<open>recv\<close> loops over the list of answers the socket gives; those return \<open>None\<close> exactly
  while every answer so far only made them wait or was skipped, and \<open>listeners_return\<close> says that
  these are the only runs that do not return. So no fuel is needed. The endless loop of a task is
  the step relation of \<open>System\<close>, in which a tick of the timer task may come at any time, so
  that what is shown of it does not depend on the scheduler; where the polling period of one
  second matters, the ticks are those of \<open>tick_time\<close>.

  \<^bold>\<open>Contracts.\<close> The locales state what one part relies on in another. \<open>wire_crates\<close> and \<open>ip_text\<close>
  (\<open>Crates\<close>): the byte cursor, checksum and address parsing. \<open>listener\<close> (\<open>Network\<close>): a socket
  loop skips what it must and hands out the next packet. \<open>effect_discipline\<close> (\<open>Os\<close>),
  \<open>socket_discipline\<close>, \<open>link_discipline\<close>, \<open>teardown_discipline\<close> and \<open>turn_discipline\<close>: properties of
  the requests of an operation, composed along the calls; they are used with "the hop limit is
  set before an advertisement is sent" and "interfaces are left alone".
  \<open>fsm_operation\<close> (\<open>Protocol\<close>): an operation that takes steps of the abstract state machine; the
  observer, the packet handler, the timer tick and the turn of any task are interpretations.

  \<^bold>\<open>What is shown.\<close>
  \<^item> Codec: the decoders accept exactly a stated grammar, never panic, give well-formed packets only,
    invert the encoders, and detect the corruption of a single byte; ARP and Neighbor
    Advertisement bytes are those of their RFCs on hosts of either byte order.
  \<^item> State machine: the observer, the packet handler and the timer task are refined by
    one function \<open>protocol\<close>; the timer invariant holds in every reachable state; Init is final.
  \<^item> Timing: Skew_Time and Master_Down_Interval are the RFC values to 1/256 of a second; a Backup
    takes over at the first tick after its deadline and not before. A higher priority gives an
    earlier deadline, but under polling once a second that decides who is first only if the
    deadlines are a second apart, which in version 2 they never are.
  \<^item> Effects: what a takeover announces and a shutdown removes, in order; the hop limit 255; ARP
    and neighbour answers; the contracts of mac-vlan creation and removal.
  \<^item> Addresses: a version 2 instance has its virtual addresses assigned exactly while it is Master,
    in every calm run, whether it found its mac-vlan or created it, by replaying all requests it
    ever made; a packet moves the addresses of
    its own family only, so a version 3 instance can be Backup and keep the others.
  \<^item> Configuration: validation accepts exactly the sound lists, a file gives the instances its
    objects say with the documented defaults, and the routers built from them serve the
    configured addresses and fit the messages they send.
  \<^item> Two routers: an advertisement one router sends is decoded and accepted by another of the same
    virtual router, over both families, unless its source is an address of the receiver; of two
    Masters of different priority that hear each other once, the one of higher priority is left.
  \<^item> A link with any number of routers: once they agree on the Master of highest priority they go
    on agreeing while it is heard in time, and how one late advertisement breaks this.
  \<^item> The whole of \<open>run\<close>: when it waits, when it returns an error and when success, what it leaves
    behind in each case, and that no task can undo a Shutdown before it is aborted.
  \<^item> Panics: one situation in which a task panics, and no other.
  \<^item> Where the program departs from its protocol documents the behaviour is stated as it is: two
    Masters of equal non-zero priority both yield, a Master ignores a peer whose address it holds
    itself, a preempting Backup takes over without announcing
    itself, a Shutdown advertises the configured priority, a missing mac-vlan ends the timer
    task, a Neighbor Advertisement goes out without a hop limit, and addresses of the other
    family stay behind when a Master yields.

  \<^bold>\<open>Not modelled.\<close> The texts of log messages other than those for refused packets and failed
  loading (log entries for dropped packets are in the trace, with their level); the texts of
  errors that come from outside; how \<open>serde_json\<close> reads a text into the members of an object,
  \<open>clap\<close> and \<open>log4rs\<close>, whose results are the fields of \<open>config_env\<close>; the scheduler and timers of
  \<open>tokio\<close> beyond the interleaving of turns and the instants of undelayed ticks; the requests of a
  set-up that panics; the byte count \<open>sendto\<close> returns; the delivery of signals; the multicast
  groups of solicited nodes.
\<close>

section \<open>The routers of a virtual router on one link\<close>

text \<open>
  Any number of routers on a link: their mutexes, and the datagrams to the VRRP group that are
  on the air, each with its sender. A datagram is heard by another router any number of times
  or never, in any order, and from any source address; the handler ignores it when that address
  is one of the hearer's own. A router's timer task ticks; a router outside \<open>late\<close> is only ticked
  before its deadline, so that its timer never fires.
\<close>

record 'n lan =
  members :: "'n \<Rightarrow> router_mutex"
  air :: "('n \<times> bytes) set"

fun vrrp_datagrams :: "trace \<Rightarrow> bytes list" where
  "vrrp_datagrams [] = []"
| "vrrp_datagrams (SockSendTo buf addr # es) =
     (if addr = SaV4 VRRP_MCAST_ADDR then [buf] else []) @ vrrp_datagrams es"
| "vrrp_datagrams (_ # es) = vrrp_datagrams es"

definition lan_update :: "'n \<Rightarrow> router_mutex \<Rightarrow> trace \<Rightarrow> 'n lan \<Rightarrow> 'n lan" where
  "lan_update i mx tr L =
     L\<lparr>members := (members L)(i := mx), air := air L \<union> Pair i ` set (vrrp_datagrams tr)\<rparr>"

definition punctual :: "os \<Rightarrow> router_mutex \<Rightarrow> bool" where
  "punctual os mx =
     (case waiting_for (fsm_timer (vr_fsm (guarded mx))) of Some w \<Rightarrow> os_now os [] \<le> w | None \<Rightarrow> True)"

inductive lan_step :: "crates \<Rightarrow> 'n set \<Rightarrow> 'n lan \<Rightarrow> 'n lan \<Rightarrow> bool" for C late where
  tick: "timer_tick C os (members L i) [] = Some (err, mx, tr) \<Longrightarrow>
         i \<in> late \<or> punctual os (members L i) \<Longrightarrow> lan_step C late L (lan_update i mx tr L)"
| hear: "(j, payload) \<in> air L \<Longrightarrow> i \<noteq> j \<Longrightarrow>
         handle_incoming_vrrp_v4_pkt C os (advert_datagram src dst payload) (members L i) []
           = Some (r, mx, tr) \<Longrightarrow>
         lan_step C late L (lan_update i mx tr L)"

abbreviation member :: "'n lan \<Rightarrow> 'n \<Rightarrow> virtual_router" where
  "member L i \<equiv> guarded (members L i)"

text \<open>The datagram a router advertises itself with over IPv4.\<close>

definition datagram_of :: "virtual_router \<Rightarrow> bytes" where
  "datagram_of a = sealed_v4 (advert_v4 a) (ipv4_addrs a)"

text \<open>Everyone runs, \<open>t\<close> is the one Master, and only its advertisements are on the air.\<close>

definition agreed :: "'n \<Rightarrow> 'n lan \<Rightarrow> bool" where
  "agreed t L \<longleftrightarrow>
     (\<forall>i. router_ok (member L i) \<and> \<not> poisoned (members L i)
        \<and> fsm_state (vr_fsm (member L i)) = (if i = t then Master else Backup))
     \<and> air L \<subseteq> {(t, datagram_of (member L t))}"

text \<open>\<open>t\<close> has the highest priority of the routers of one virtual router.\<close>

definition leads :: "'n \<Rightarrow> 'n lan \<Rightarrow> bool" where
  "leads t L \<longleftrightarrow> (\<forall>i. same_virtual_router (member L t) (member L i)
     \<and> (i \<noteq> t \<longrightarrow> vr_priority (member L i) < vr_priority (member L t)))"

subsection \<open>What a router puts on the air\<close>

lemma vrrp_datagrams_append [simp]: "vrrp_datagrams (xs @ ys) = vrrp_datagrams xs @ vrrp_datagrams ys"
  by (induction xs rule: vrrp_datagrams.induct) simp_all

lemma vrrp_datagrams_setup [simp]:
  "vrrp_datagrams (take k (vrrp_setup_v4 ifname src4)) = []"
  "vrrp_datagrams (take k (vrrp_setup_v6 ifname src6)) = []"
  "vrrp_datagrams (vrrp_setup_v4 ifname src4) = []" "vrrp_datagrams (vrrp_setup_v6 ifname src6) = []"
  by (auto simp: vrrp_setup_v4_def vrrp_setup_v6_def take_Cons split: nat.split)

lemma vrrp_datagrams_payloads: "set (vrrp_datagrams tr) \<subseteq> set (payloads tr)"
  by (induction tr rule: payloads.induct) auto

context wire_crates
begin

lemma advertised:
  assumes "send_advertisement C os a [] = Some tr"
  shows "set (vrrp_datagrams tr) \<subseteq> {datagram_of a}"
proof -
  from assms obtain r tr1 where s: "send_vrrp_packet_v4 C os (vr_mac_vlan_interface_v4 a)
      (vr_primary_ip a) (advert_v4 a) [] = Some (r, tr1)"
    by (auto simp: send_advertisement_def bind_eq_Some_conv)
  with assms have rest: "tr = tr1 \<or> (\<exists>ifname src r6.
      send_vrrp_packet_v6 C os ifname src (advert_v6 a) tr1 = Some (r6, tr))"
    by (auto simp: send_advertisement_def bind_eq_Some_conv split: option.splits)
  from s have "set (vrrp_datagrams tr1) \<subseteq> {datagram_of a}"
  proof (cases rule: send_vrrp_v4_cases)
    case (sent buf)
    moreover have "encode C (advert_v4 a) (IpV4 (vr_primary_ip a)) = Some (datagram_of a)"
      by (simp add: encode_def advert_v4_def encode_v4_layout sealed_v4_def datagram_of_def)
    ultimately show ?thesis by (simp add: vrrp_conv_v4_def)
  qed simp
  moreover have "vrrp_datagrams tr = vrrp_datagrams tr1"
    using rest by (auto elim!: send_vrrp_v6_cases simp: vrrp_conv_v6_def)
  ultimately show ?thesis by simp
qed

end

lemma same_config_datagram:
  assumes "same_config a b"
  shows "datagram_of b = datagram_of a"
  using same_config_fields [OF assms]
  by (simp add: datagram_of_def advert_v4_def ipv4_addrs_def adver_int_of_def)

text \<open>A Backup that hears an advertisement it obeys sends nothing.\<close>

lemma backup_hears_silently:
  assumes "timers_ok (guarded mx)" and "\<not> poisoned mx" and "fsm_state (vr_fsm (guarded mx)) = Backup"
    and "decode C payload src dst = Some (Inr p)" and "accepts (guarded mx) p ttl"
    and "vr_priority (guarded mx) \<le> priority p" and "priority p \<noteq> 0"
    and "process_vrrp_packet C os payload src dst ttl mx tr = Some (r, mx', tr')"
  shows "payloads tr' = payloads tr"
  using assms(2,8)
proof (cases rule: process_cases)
  case (acted p' iface tr1)
  have p': "p' = p" using acted(1) assms(4) by simp
  have "payloads tr1 = payloads tr"
    using verify_packet_accepted [OF acted(2), of tr] acted(4) by (auto simp: log_drop_def)
  moreover from acted(5) p' assms(3,6,7) have "payloads tr' = payloads tr1"
    by (auto simp: act_on_packet_def Let_def set_timers [OF assms(1)] bind_eq_Some_conv split: if_splits)
  ultimately show ?thesis by simp
next
  case (no_interface q)
  then show ?thesis using verify_packet_accepted [OF no_interface(4), of tr] by (auto simp: log_drop_def)
qed (use assms in auto)

subsection \<open>Agreement is stable\<close>

definition sendable :: "virtual_router \<Rightarrow> bool" where
  "sendable a \<longleftrightarrow> length (vr_ipv4_addresses a) \<le> 16 \<and> interval_fits (vr_version a) (adver_int_of a)"

lemma lan_update_fields [simp]:
  "members (lan_update i mx tr L) = (members L)(i := mx)"
  "air (lan_update i mx tr L) = air L \<union> Pair i ` set (vrrp_datagrams tr)"
  by (simp_all add: lan_update_def)

lemma same_config_sendable: "same_config a b \<Longrightarrow> sendable b = sendable a"
  by (simp add: sendable_def adver_int_of_def same_config_fields)

lemma same_config_leads:
  assumes "leads t L" and "\<And>i. same_config (member L i) (member L' i)"
  shows "leads t L'"
  using assms(1) same_config_fields [OF assms(2)]
  by (simp add: leads_def same_virtual_router_def)

text \<open>A step of one router that keeps its state, and puts nothing on the air unless it leads.\<close>

lemma agreed_update:
  assumes "agreed t L" and "leads t L" and "sendable (member L t)"
    and "router_ok (guarded mx)" and "\<not> poisoned mx" and "same_config (member L i) (guarded mx)"
    and "fsm_state (vr_fsm (guarded mx)) = fsm_state (vr_fsm (member L i))"
    and "set (vrrp_datagrams tr) \<subseteq> (if i = t then {datagram_of (member L t)} else {})"
  shows "agreed t (lan_update i mx tr L) \<and> leads t (lan_update i mx tr L)
    \<and> sendable (member (lan_update i mx tr L) t)"
proof -
  let ?L = "lan_update i mx tr L"
  have c: "same_config (member L j) (member ?L j)" for j
    using assms(6) by (simp add: same_config_def)
  have "datagram_of (member ?L t) = datagram_of (member L t)"
    by (rule same_config_datagram [OF c])
  then have "agreed t ?L"
    using assms(1,4,5,7,8) by (auto simp: agreed_def split: if_splits)
  with same_config_leads [OF assms(2) c] same_config_sendable [OF c] assms(3) show ?thesis by blast
qed

context wire_crates
begin

lemma tick_keeps_agreement:
  assumes "agreed t L" and "leads t L" and "sendable (member L t)"
    and "timer_tick C os (members L i) [] = Some (err, mx, tr)" and "i = t \<or> punctual os (members L i)"
  shows "agreed t (lan_update i mx tr L) \<and> leads t (lan_update i mx tr L)
    \<and> sendable (member (lan_update i mx tr L) t)"
proof -
  have ok: "router_ok (member L i)" "\<not> poisoned (members L i)"
    and s: "fsm_state (vr_fsm (member L i)) = (if i = t then Master else Backup)"
    using assms(1) by (simp_all add: agreed_def)
  have idle: ?thesis if "mx = members L i" "tr = []"
    using that ok by (intro agreed_update [OF assms(1-3)]) (simp_all add: same_config_def)
  show ?thesis
  proof (cases "i = t")
    case True
    from ok(1) assms(4) show ?thesis
    proof (cases rule: timer_tick_cases)
      case (advert w)
      have "set (vrrp_datagrams tr) \<subseteq> {datagram_of (member L i)}"
        by (rule advertised [OF advert(6)])
      with advert ok s True show ?thesis
        by (intro agreed_update [OF assms(1-3)])
          (simp_all add: router_ok_step fsm_step_state same_config_fsm_step)
    qed (use idle s True in auto)
  next
    case False
    then obtain w where w: "waiting_for (fsm_timer (vr_fsm (member L i))) = Some w"
      using router_ok_expiring(3) [OF ok(1)] s by (cases "waiting_for (fsm_timer (vr_fsm (member L i)))") auto
    then have "os_now os [] \<le> w" using assms(5) False by (simp add: punctual_def)
    from timer_tick_idle [OF ok(2) w this, of C] assms(4) show ?thesis by (intro idle) simp_all
  qed
qed

lemma hearing_keeps_agreement:
  assumes "agreed t L" and "leads t L" and "sendable (member L t)"
    and "(j, payload) \<in> air L" and "i \<noteq> j"
    and "handle_incoming_vrrp_v4_pkt C os (advert_datagram src dst payload) (members L i) [] = Some (r, mx, tr)"
  shows "agreed t (lan_update i mx tr L) \<and> leads t (lan_update i mx tr L)
    \<and> sendable (member (lan_update i mx tr L) t)"
proof (cases "is_local_source os (IpV4 src) []")
  case True
  with assms(6) have "mx = members L i" "tr = []" by (simp_all add: handle_advert_v4)
  with assms(1) show ?thesis
    by (intro agreed_update [OF assms(1-3)]) (simp_all add: agreed_def same_config_def)
next
  case False
  with assms(6) have heard: "process_vrrp_packet C os payload (IpV4 src) (IpV4 dst) 255 (members L i) []
      = Some (r, mx, tr)"
    by (simp add: handle_advert_v4)
  let ?p = "advert_v4 (member L t)"
  have payload: "payload = datagram_of (member L t)" and "i \<noteq> t"
    using assms(1,4,5) by (auto simp: agreed_def)
  have ok: "router_ok (member L i)" "timers_ok (member L i)" "\<not> poisoned (members L i)"
    and s: "fsm_state (vr_fsm (member L i)) = Backup"
    using assms(1) \<open>i \<noteq> t\<close> by (simp_all add: agreed_def router_ok_timers)
  have d: "decode C payload (IpV4 src) (IpV4 dst) = Some (Inr ?p)"
    using advert_decodes assms(3) by (simp add: payload datagram_of_def sendable_def)
  have acc: "accepts (member L i) ?p 255" and higher: "vr_priority (member L i) < priority ?p"
    using assms(2) \<open>i \<noteq> t\<close> same_virtual_router_accepts(1) by (simp_all add: leads_def advert_v4_def)
  then have p: "vr_priority (member L i) \<le> priority ?p" "priority ?p \<noteq> 0" by auto
  have fam: "family_interface (member L i) (addresses ?p) \<noteq> None" by (simp add: advert_v4_def)
  have e: "erase (guarded mx) = erase (fsm_step (os_now os tr) (Advert (priority ?p)) (member L i))"
    by (rule process_step [OF ok(2,3) heard d acc fam])
  have "payloads tr = []"
    using backup_hears_silently [OF ok(2,3) s d acc p heard] by simp
  then have "set (vrrp_datagrams tr) \<subseteq> {}" using vrrp_datagrams_payloads [of tr] by simp
  moreover have "router_ok (guarded mx)"
    using router_ok_step [OF ok(1)] router_ok_erase [OF e] by simp
  moreover have "\<not> poisoned mx" using process_poisoned [OF heard] ok(3) by simp
  moreover have "fsm_state (vr_fsm (guarded mx)) = fsm_state (vr_fsm (member L i))"
    using lower_priority_yields [OF e _ higher] s by simp
  ultimately show ?thesis
    using erase_same_config [OF e] \<open>i \<noteq> t\<close> by (intro agreed_update [OF assms(1-3)]) simp_all
qed

lemma lan_step_keeps_agreement:
  assumes "lan_step C {t} L L'" and "agreed t L" and "leads t L" and "sendable (member L t)"
  shows "agreed t L' \<and> leads t L' \<and> sendable (member L' t)"
  using assms(1)
proof (cases rule: lan_step.cases)
  case tick
  then show ?thesis using tick_keeps_agreement [OF assms(2-4)] by simp
next
  case hear
  then show ?thesis using hearing_keeps_agreement [OF assms(2-4)] by simp
qed

end

text \<open>C8: Agreement over IPv4 is stable. Once the router of the highest priority is the one Master of any
  number of routers on a link and only its advertisements are on the air, it stays the one
  Master, however often and in whatever order its advertisements are heard or lost and whenever
  its own timer ticks, as long as the timers of the others are only looked at before their
  deadlines, that is, as long as each of them hears the Master within its master-down interval.\<close>

theorem agreement_is_stable:
  assumes "wire_crates C" and "config_ok C conf" and "instance_of C conf (member L t)"
    and "leads t L" and "agreed t L" and "(lan_step C {t})\<^sup>*\<^sup>* L L'"
  shows "agreed t L'
    \<and> (\<forall>i. fsm_state (vr_fsm (member L' i)) = Master \<longleftrightarrow> i = t)"
proof -
  have s: "sendable (member L t)"
    using instance_fits [OF assms(2,3)] by (simp add: sendable_def)
  from assms(6) have "agreed t L' \<and> leads t L' \<and> sendable (member L' t)"
  proof (induction rule: rtranclp_induct)
    case base
    show ?case using assms(4,5) s by simp
  next
    case (step L1 L2)
    then show ?case using wire_crates.lan_step_keeps_agreement [OF assms(1) step(2)] by simp
  qed
  then show ?thesis by (simp add: agreed_def)
qed

text \<open>The example instance as Master with a Backup of priority 50 that is yet to hear it.\<close>

definition example_lan :: "bool lan" where
  "example_lan = \<lparr>members = (\<lambda>i. \<lparr>guarded = (if i then example_in Master else example_low Backup),
       poisoned = False\<rparr>),
     air = {(True, datagram_of (example_in Master))}\<rparr>"

lemma example_lan_facts:
  "agreed True example_lan" "leads True example_lan" "member example_lan True = example_in Master"
proof -
  have "router_ok (example_in Master)" by (rule example_in_ok(1))
  then show "agreed True example_lan"
    by (simp add: agreed_def example_lan_def example_low_facts)
  show "leads True example_lan"
    using example_low_facts(3) [of Master Backup] by (simp add: leads_def example_lan_def example_low_facts(4) same_virtual_router_def)
qed (simp add: example_lan_def)

theorem agreement_is_stable_witness:
  "\<exists>r mx tr. handle_incoming_vrrp_v4_pkt list_crates (example_os 5)
       (advert_datagram 1 2 (datagram_of (example_in Master))) (members example_lan False) [] = Some (r, mx, tr)
     \<and> fsm_state (vr_fsm (member (lan_update False mx tr example_lan) False)) = Backup"
proof -
  have "timers_ok (member example_lan False)"
    using example_low_facts(2) [of Backup] by (simp add: example_lan_def router_ok_def)
  from lc.process_total [OF this, of "example_os 5" "datagram_of (example_in Master)" "IpV4 1" "IpV4 2" 255 "[]"]
  obtain r mx tr where p: "handle_incoming_vrrp_v4_pkt list_crates (example_os 5)
       (advert_datagram 1 2 (datagram_of (example_in Master))) (members example_lan False) [] = Some (r, mx, tr)"
    by (auto simp: handle_advert_v4 example_foreign)
  have "lan_step list_crates {True} example_lan (lan_update False mx tr example_lan)"
    by (rule lan_step.hear [of True, OF _ _ p]) (simp_all add: example_lan_def)
  then have "(lan_step list_crates {True})\<^sup>*\<^sup>* example_lan (lan_update False mx tr example_lan)" by blast
  note stable = agreement_is_stable [OF lc.wire_crates_axioms example_config_ok [of V2 100] _
      example_lan_facts(2,1) this]
  have "instance_of list_crates (example_config V2 100) (member example_lan True)"
    by (simp add: example_lan_facts(3) example_instance)
  from stable [OF this] have "agreed True (lan_update False mx tr example_lan)" by blast
  then have "fsm_state (vr_fsm (member (lan_update False mx tr example_lan) False)) = Backup"
    by (simp only: agreed_def) simp
  with p show ?thesis by blast
qed

text \<open>C36: One late advertisement breaks the agreement. If an advertisement of a router of low
  priority is still on the air while \<open>t\<close> is Master, and a preempting Backup of a priority in
  between hears it, that Backup becomes a second Master at once although \<open>t\<close> is alive, and
  it puts nothing on the air. (The protocol has it discard the advertisement.)\<close>

theorem late_advertisement_splits:
  assumes "wire_crates C" and "config_ok C conf" and "instance_of C conf (member L j)"
    and "leads t L" and "fsm_state (vr_fsm (member L t)) = Master" and "i \<noteq> t"
    and "router_ok (member L i)" and "\<not> poisoned (members L i)"
    and "fsm_state (vr_fsm (member L i)) = Backup" and "vr_preempt_mode (member L i)"
    and "vr_priority (member L j) < vr_priority (member L i)" and "vr_priority (member L j) \<noteq> 0"
    and "(j, datagram_of (member L j)) \<in> air L"
  shows "\<exists>L'. lan_step C {} L L' \<and> fsm_state (vr_fsm (member L' t)) = Master
    \<and> fsm_state (vr_fsm (member L' i)) = Master \<and> air L' = air L"
proof -
  let ?p = "advert_v4 (member L j)" and ?os = "example_os 0"
  have t: "timers_ok (member L i)" using assms(7) by (rule router_ok_timers)
  have d: "decode C (datagram_of (member L j)) (IpV4 1) (IpV4 0) = Some (Inr ?p)"
    using wire_crates.advert_decodes [OF assms(1) instance_fits(2,1) [OF assms(2,3)]]
    by (simp add: datagram_of_def)
  have "same_virtual_router (member L t) (member L j)" "same_virtual_router (member L t) (member L i)"
    using assms(4) by (simp_all add: leads_def)
  then have "same_virtual_router (member L j) (member L i)" by (simp add: same_virtual_router_def)
  then have acc: "accepts (member L i) ?p 255" by (rule same_virtual_router_accepts(1))
  have fam: "family_interface (member L i) (addresses ?p) \<noteq> None" and
    low: "priority ?p < vr_priority (member L i)" "priority ?p \<noteq> 0"
    using assms(11,12) by (simp_all add: advert_v4_def)
  obtain r mx tr where h: "process_vrrp_packet C ?os (datagram_of (member L j)) (IpV4 1) (IpV4 0) 255
      (members L i) [] = Some (r, mx, tr)"
    using wire_crates.process_total [OF assms(1) t] by blast
  from takes_over_silently [OF t assms(8,9,10) d acc fam low h]
  have m: "fsm_state (vr_fsm (guarded mx)) = Master" and "payloads tr = []" by simp_all
  then have quiet: "set (vrrp_datagrams tr) = {}" using vrrp_datagrams_payloads [of tr] by simp
  have "i \<noteq> j" using assms(11) by auto
  have "handle_incoming_vrrp_v4_pkt C ?os (advert_datagram 1 0 (datagram_of (member L j))) (members L i) []
      = Some (r, mx, tr)"
    using h by (simp add: handle_advert_v4 example_foreign)
  from lan_step.hear [OF assms(13) \<open>i \<noteq> j\<close> this]
  have "lan_step C {} L (lan_update i mx tr L)" .
  with m quiet assms(5,6) show ?thesis
    by (intro exI [of _ "lan_update i mx tr L"]) simp
qed

text \<open>Three routers: the example instance as Master, the one of priority 50 as Backup, and one of
  priority 20 whose advertisement is late.\<close>

definition example_last :: virtual_router where
  "example_last = (example_in Backup)\<lparr>vr_priority := 20\<rparr>"

definition late_lan :: "bool option lan" where
  "late_lan = \<lparr>members = (\<lambda>i. \<lparr>guarded = (case i of None \<Rightarrow> example_in Master
       | Some b \<Rightarrow> if b then example_low Backup else example_last), poisoned = False\<rparr>),
     air = {(Some False, datagram_of example_last)}\<rparr>"

theorem late_advertisement_splits_witness:
  "\<exists>L'. lan_step list_crates {} late_lan L' \<and> fsm_state (vr_fsm (member L' None)) = Master
    \<and> fsm_state (vr_fsm (member L' (Some True))) = Master"
proof -
  have "vr_ipv4_addresses (config_to_vr list_crates (example_config V2 20)) = [example_net]"
    "vr_ipv6_addresses (config_to_vr list_crates (example_config V2 20)) = []"
    by (simp_all add: config_to_vr_addresses example_config_def example_parses)
  then have inst: "instance_of list_crates (example_config V2 20) (member late_lan (Some False))"
    by (simp add: instance_of_def example_config_def example_name late_lan_def example_last_def)
  have "same_virtual_router (member late_lan None) (member late_lan i)
      \<and> (i \<noteq> None \<longrightarrow> vr_priority (member late_lan i) < vr_priority (member late_lan None))" for i
  proof (cases i)
    case (Some b)
    then show ?thesis
      using example_low_facts(3) [of Master Backup]
      by (cases b) (simp_all add: late_lan_def example_last_def example_low_facts(4) same_virtual_router_def)
  qed (simp add: same_virtual_router_def)
  then have lead: "leads None late_lan" unfolding leads_def by blast
  have "vr_preempt_mode (example_low Backup)" by (simp add: example_low_def)
  with late_advertisement_splits [OF lc.wire_crates_axioms example_config_ok inst lead, of "Some True"]
    example_low_facts(2) [of Backup]
  show ?thesis by (auto simp: late_lan_def example_low_facts(4,5) example_last_def)
qed

end
